theory Spec2Isabelle
  imports Main "HOL-Library.Sublist" "HOL-Library.Multiset"
begin

section \<open>Data model\<close>

text \<open>
  A JavaScript string is a sequence of UTF-16 code units; it is modelled as the list of
  its code units. \<open>js\<close> turns an Isabelle string literal (ASCII) into such a list.
\<close>

type_synonym jsstring = "nat list"

definition js :: "string \<Rightarrow> jsstring" where
  "js s = map of_char s"

text \<open>
  The time value of a JavaScript \<open>Date\<close> object is either \<open>NaN\<close> (an invalid date) or
  an integral number of milliseconds since 1970-01-01T00:00:00Z. A value of the source
  that is either \<open>null\<close> or a \<open>Date\<close> is a \<open>timeval option\<close>.
\<close>

datatype timeval = NaN | Time int

text \<open>
  The row object built by \<open>normalizeRow\<close>
  (\<open>{ include, dateRaw, dateObj, author, title, summary, tags, url }\<close>).
  The field \<open>include\<close> is called \<open>incl\<close> here.
\<close>

record post =
  incl :: jsstring
  dateRaw :: jsstring
  dateObj :: "timeval option"
  author :: jsstring
  title :: jsstring
  summary :: jsstring
  tags :: "jsstring list"
  url :: jsstring

section \<open>Strings\<close>

text \<open>
  \<open>String.prototype.toLowerCase\<close>, modelled on the ASCII letters: the code units
  \<open>A\<close> to \<open>Z\<close> are mapped to \<open>a\<close> to \<open>z\<close>, every other code unit is kept (the case
  tables of Unicode for letters outside ASCII are not modelled). The model gives the
  result of the source on every string without a capital letter outside ASCII; on a
  string with such a letter, which the source lower-cases too, it differs. The phrases
  evaluated below are ASCII, and the general statements about the filter stages hold
  for every search predicate.
\<close>

definition toLowerCase :: "jsstring \<Rightarrow> jsstring" where
  "toLowerCase s = map (\<lambda>c. if 65 \<le> c \<and> c \<le> 90 then c + 32 else c) s"

text \<open>
  The code units that \<open>trim\<close> and \<open>parseInt\<close> strip: ECMAScript's WhiteSpace and
  LineTerminator (TAB, LF, VT, FF, CR, SP, NBSP, U+1680, U+2000 to U+200A, U+2028,
  U+2029, U+202F, U+205F, U+3000, U+FEFF).
\<close>

definition isWhiteSpace :: "nat \<Rightarrow> bool" where
  "isWhiteSpace c \<longleftrightarrow>
     (9 \<le> c \<and> c \<le> 13) \<or> c = 32 \<or> c = 160 \<or> c = 5760 \<or> (8192 \<le> c \<and> c \<le> 8202) \<or>
     c = 8232 \<or> c = 8233 \<or> c = 8239 \<or> c = 8287 \<or> c = 12288 \<or> c = 65279"

definition trim :: "jsstring \<Rightarrow> jsstring" where
  "trim s = rev (dropWhile isWhiteSpace (rev (dropWhile isWhiteSpace s)))"

text \<open>\<open>s.split(ch)\<close> for a separator \<open>ch\<close> of one code unit, and \<open>parts.join(sep)\<close>.\<close>

fun splitStr :: "nat \<Rightarrow> jsstring \<Rightarrow> jsstring list" where
  "splitStr ch [] = [[]]"
| "splitStr ch (c # cs) =
     (if c = ch then [] # splitStr ch cs
      else (case splitStr ch cs of [] \<Rightarrow> [[c]] | p # ps \<Rightarrow> (c # p) # ps))"

fun joinStr :: "jsstring \<Rightarrow> jsstring list \<Rightarrow> jsstring" where
  "joinStr sep [] = []"
| "joinStr sep [p] = p"
| "joinStr sep (p # q # ps) = p @ sep @ joinStr sep (q # ps)"

text \<open>\<open>s.includes(q)\<close>: \<open>q\<close> occurs in \<open>s\<close> as a contiguous run of code units.\<close>

fun startsWith :: "jsstring \<Rightarrow> jsstring \<Rightarrow> bool" where
  "startsWith s [] = True"
| "startsWith [] (q # qs) = False"
| "startsWith (c # cs) (q # qs) = (c = q \<and> startsWith cs qs)"

fun includesStr :: "jsstring \<Rightarrow> jsstring \<Rightarrow> bool" where
  "includesStr [] q = (q = [])"
| "includesStr (c # cs) q = (startsWith (c # cs) q \<or> includesStr cs q)"

text \<open>
  The helpers \<open>isDigit\<close> and \<open>isLetter\<close> of \<open>numUnitSpacing\<close>
  (\<open>c >= '0' && c <= '9'\<close>, \<open>c >= 'a' && c <= 'z'\<close>, on strings of one code unit).
\<close>

definition isDigit :: "nat \<Rightarrow> bool" where
  "isDigit c \<longleftrightarrow> 48 \<le> c \<and> c \<le> 57"

definition isLetter :: "nat \<Rightarrow> bool" where
  "isLetter c \<longleftrightarrow> 97 \<le> c \<and> c \<le> 122"

text \<open>The value of a string of decimal digits, read from the left.\<close>

definition digitsValue :: "jsstring \<Rightarrow> int" where
  "digitsValue ds = foldl (\<lambda>acc c. 10 * acc + (int c - 48)) 0 ds"

text \<open>
  \<open>parseInt(str, 10)\<close>: leading white space is skipped, then an optional sign, then the
  longest run of decimal digits; \<open>None\<close> is \<open>NaN\<close> (no digit). The result is the exact
  integer; \<open>isFinite\<close> below accounts for the integers that a double rounds to
  \<open>Infinity\<close>.
\<close>

definition parseInt :: "jsstring \<Rightarrow> int option" where
  "parseInt str =
     (let s = dropWhile isWhiteSpace str;
          sign = (case s of c # _ \<Rightarrow> if c = 45 then -1 else 1 | [] \<Rightarrow> 1);
          r = (case s of c # cs \<Rightarrow> if c = 45 \<or> c = 43 then cs else s | [] \<Rightarrow> s);
          z = takeWhile isDigit r
      in if z = [] then None else Some (sign * digitsValue z))"

definition isFinite :: "int option \<Rightarrow> bool" where
  "isFinite n = (case n of None \<Rightarrow> False | Some k \<Rightarrow> \<bar>k\<bar> < 2 ^ 1024 - 2 ^ 970)"

section \<open>Time values and the calendar of ECMAScript\<close>

text \<open>
  The abstract operations of ECMA-262 (section "Date Objects") that the methods used by
  the source are defined by, on integral time values.
\<close>

definition msPerDay :: int where "msPerDay = 86400000"
definition msPerHour :: int where "msPerHour = 3600000"
definition msPerMinute :: int where "msPerMinute = 60000"
definition msPerSecond :: int where "msPerSecond = 1000"

definition TimeClip :: "int \<Rightarrow> timeval" where
  "TimeClip t = (if \<bar>t\<bar> > 8640000000000000 then NaN else Time t)"

definition Day :: "int \<Rightarrow> int" where
  "Day t = t div msPerDay"

definition TimeWithinDay :: "int \<Rightarrow> int" where
  "TimeWithinDay t = t mod msPerDay"

definition DaysInYear :: "int \<Rightarrow> int" where
  "DaysInYear y =
     (if y mod 4 \<noteq> 0 then 365 else if y mod 100 \<noteq> 0 then 366
      else if y mod 400 \<noteq> 0 then 365 else 366)"

definition DayFromYear :: "int \<Rightarrow> int" where
  "DayFromYear y =
     365 * (y - 1970) + (y - 1969) div 4 - (y - 1901) div 100 + (y - 1601) div 400"

lemma div_succ:
  "0 < n \<Longrightarrow> (a + 1) div n = a div n + (if (a + 1) mod n = 0 then 1 else 0)"
  for a n :: int
proof -
  assume n: "0 < n"
  define q where "q = a div n"
  define r where "r = a mod n"
  have a: "a = n * q + r" and r: "0 \<le> r" "r < n" using n by (simp_all add: q_def r_def)
  show ?thesis
  proof (cases "r + 1 = n")
    case True
    then have e: "a + 1 = n * (q + 1)" using a by (simp add: algebra_simps)
    have "(a + 1) div n = q + 1" using n unfolding e by simp
    moreover have "(a + 1) mod n = 0" unfolding e by simp
    ultimately show ?thesis by (simp add: q_def)
  next
    case False
    then have lt: "r + 1 < n" using r by simp
    have e: "a + 1 = n * q + (r + 1)" using a by simp
    have "(a + 1) div n = q" using lt r n unfolding e by (simp add: div_pos_pos_trivial)
    moreover have "(a + 1) mod n = r + 1"
      using lt r n unfolding e by (simp add: mod_pos_pos_trivial)
    ultimately show ?thesis using r by (simp add: q_def)
  qed
qed

lemma mod_shift: "(y - n * k) mod n = y mod n" for y n k :: int
  by (metis mod_mult_self2 diff_add_cancel mult.commute)

lemma leap_100_4: "y mod 100 = 0 \<Longrightarrow> y mod 4 = 0" for y :: int
  using mod_mod_cancel [of 4 100 y] by simp

lemma leap_400_100: "y mod 400 = 0 \<Longrightarrow> y mod 100 = 0" for y :: int
  using mod_mod_cancel [of 100 400 y] by simp

lemma DayFromYear_Suc: "DayFromYear (y + 1) = DayFromYear y + DaysInYear y"
proof -
  have a: "(y + 1 - 1969) div 4 = (y - 1969) div 4 + (if y mod 4 = 0 then 1 else 0)"
    using div_succ [of 4 "y - 1969"] mod_shift [of y 4 492] by (simp add: algebra_simps)
  have b: "(y + 1 - 1901) div 100 = (y - 1901) div 100 + (if y mod 100 = 0 then 1 else 0)"
    using div_succ [of 100 "y - 1901"] mod_shift [of y 100 19] by (simp add: algebra_simps)
  have c: "(y + 1 - 1601) div 400 = (y - 1601) div 400 + (if y mod 400 = 0 then 1 else 0)"
    using div_succ [of 400 "y - 1601"] mod_shift [of y 400 4] by (simp add: algebra_simps)
  show ?thesis
    using leap_100_4 [of y] leap_400_100 [of y]
    unfolding DayFromYear_def DaysInYear_def a b c by auto
qed

text \<open>
  \<open>YearFromTime(t)\<close> is the largest year \<open>y\<close> with \<open>TimeFromYear(y) \<le> t\<close>. It is
  computed by a search upwards from a year that is not after it.
\<close>

function yearUp :: "int \<Rightarrow> int \<Rightarrow> int" where
  "yearUp d y = (if DayFromYear (y + 1) \<le> d then yearUp d (y + 1) else y)"
  by pat_completeness auto
termination
proof (relation "measure (\<lambda>(d, y). nat (d - DayFromYear y))")
  show "wf (measure (\<lambda>(d, y). nat (d - DayFromYear y)))" by simp
next
  fix d y :: int
  assume "DayFromYear (y + 1) \<le> d"
  moreover have "DayFromYear y < DayFromYear (y + 1)"
    by (simp add: DayFromYear_Suc DaysInYear_def)
  ultimately show "((d, y + 1), (d, y)) \<in> measure (\<lambda>(d, y). nat (d - DayFromYear y))"
    by simp
qed

declare yearUp.simps [simp del]

definition YearFromTime :: "int \<Rightarrow> int" where
  "YearFromTime t =
     (let d = Day t in yearUp d (1970 + (if 0 \<le> d then d div 366 else d div 365)))"

definition InLeapYear :: "int \<Rightarrow> int" where
  "InLeapYear t = (if DaysInYear (YearFromTime t) = 366 then 1 else 0)"

definition DayWithinYear :: "int \<Rightarrow> int" where
  "DayWithinYear t = Day t - DayFromYear (YearFromTime t)"

definition MonthFromTime :: "int \<Rightarrow> int" where
  "MonthFromTime t =
     (let d = DayWithinYear t; l = InLeapYear t in
      if d < 31 then 0 else if d < 59 + l then 1 else if d < 90 + l then 2
      else if d < 120 + l then 3 else if d < 151 + l then 4 else if d < 181 + l then 5
      else if d < 212 + l then 6 else if d < 243 + l then 7 else if d < 273 + l then 8
      else if d < 304 + l then 9 else if d < 334 + l then 10 else 11)"

definition DateFromTime :: "int \<Rightarrow> int" where
  "DateFromTime t =
     (let d = DayWithinYear t; l = InLeapYear t; m = MonthFromTime t in
      if m = 0 then d + 1 else if m = 1 then d - 30 else if m = 2 then d - 58 - l
      else if m = 3 then d - 89 - l else if m = 4 then d - 119 - l
      else if m = 5 then d - 150 - l else if m = 6 then d - 180 - l
      else if m = 7 then d - 211 - l else if m = 8 then d - 242 - l
      else if m = 9 then d - 272 - l else if m = 10 then d - 303 - l else d - 333 - l)"

definition HourFromTime :: "int \<Rightarrow> int" where
  "HourFromTime t = (t div msPerHour) mod 24"

definition MinFromTime :: "int \<Rightarrow> int" where
  "MinFromTime t = (t div msPerMinute) mod 60"

definition SecFromTime :: "int \<Rightarrow> int" where
  "SecFromTime t = (t div msPerSecond) mod 60"

definition msFromTime :: "int \<Rightarrow> int" where
  "msFromTime t = t mod msPerSecond"

definition MakeTime :: "int \<Rightarrow> int \<Rightarrow> int \<Rightarrow> int \<Rightarrow> int" where
  "MakeTime hour minute sec ms = hour * msPerHour + minute * msPerMinute + sec * msPerSecond + ms"

text \<open>
  \<open>MakeDay(year, month, date)\<close>: the day number of the first day of month
  \<open>month mod 12\<close> of year \<open>year + floor(month / 12)\<close>, plus \<open>date - 1\<close>.
  \<open>daysBeforeMonth\<close> is the day within the year on which a month starts.
\<close>

definition daysBeforeMonth :: "int \<Rightarrow> int \<Rightarrow> int" where
  "daysBeforeMonth mn l =
     (if mn = 0 then 0 else if mn = 1 then 31 else if mn = 2 then 59 + l
      else if mn = 3 then 90 + l else if mn = 4 then 120 + l else if mn = 5 then 151 + l
      else if mn = 6 then 181 + l else if mn = 7 then 212 + l else if mn = 8 then 243 + l
      else if mn = 9 then 273 + l else if mn = 10 then 304 + l else 334 + l)"

definition MakeDay :: "int \<Rightarrow> int \<Rightarrow> int \<Rightarrow> int" where
  "MakeDay year month date =
     (let ym = year + month div 12; mn = month mod 12;
          l = (if DaysInYear ym = 366 then 1 else 0)
      in DayFromYear ym + daysBeforeMonth mn l + date - 1)"

definition MakeDate :: "int \<Rightarrow> int \<Rightarrow> int" where
  "MakeDate day time = day * msPerDay + time"

text \<open>
  \<open>Date.UTC(year, month, date)\<close> on integers: a year from 0 to 99 stands for
  \<open>1900 + year\<close>; hours, minutes, seconds and milliseconds default to 0.
\<close>

definition Date_UTC :: "int \<Rightarrow> int \<Rightarrow> int \<Rightarrow> timeval" where
  "Date_UTC year month date =
     (let yr = (if 0 \<le> year \<and> year \<le> 99 then 1900 + year else year)
      in TimeClip (MakeDate (MakeDay yr month date) (MakeTime 0 0 0 0)))"

text \<open>
  The getters and setters of \<open>Date.prototype\<close> that the source calls. A number that may
  be \<open>NaN\<close> is an \<open>int option\<close>; \<open>d.getUTCDate() - n\<close> is \<open>numMinus (getUTCDate d) n\<close>.
\<close>

fun getUTCFullYear :: "timeval \<Rightarrow> int option" where
  "getUTCFullYear NaN = None"
| "getUTCFullYear (Time t) = Some (YearFromTime t)"

fun getUTCMonth :: "timeval \<Rightarrow> int option" where
  "getUTCMonth NaN = None"
| "getUTCMonth (Time t) = Some (MonthFromTime t)"

fun getUTCDate :: "timeval \<Rightarrow> int option" where
  "getUTCDate NaN = None"
| "getUTCDate (Time t) = Some (DateFromTime t)"

fun getUTCHours :: "timeval \<Rightarrow> int option" where
  "getUTCHours NaN = None"
| "getUTCHours (Time t) = Some (HourFromTime t)"

fun getUTCMinutes :: "timeval \<Rightarrow> int option" where
  "getUTCMinutes NaN = None"
| "getUTCMinutes (Time t) = Some (MinFromTime t)"

fun numMinus :: "int option \<Rightarrow> int \<Rightarrow> int option" where
  "numMinus None n = None"
| "numMinus (Some x) n = Some (x - n)"

fun setUTCMinutes :: "timeval \<Rightarrow> int option \<Rightarrow> timeval" where
  "setUTCMinutes (Time t) (Some m) =
     TimeClip (MakeDate (Day t) (MakeTime (HourFromTime t) m (SecFromTime t) (msFromTime t)))"
| "setUTCMinutes d m = NaN"

fun setUTCHours :: "timeval \<Rightarrow> int option \<Rightarrow> timeval" where
  "setUTCHours (Time t) (Some h) =
     TimeClip (MakeDate (Day t) (MakeTime h (MinFromTime t) (SecFromTime t) (msFromTime t)))"
| "setUTCHours d h = NaN"

fun setUTCDate :: "timeval \<Rightarrow> int option \<Rightarrow> timeval" where
  "setUTCDate (Time t) (Some dt) =
     TimeClip (MakeDate (MakeDay (YearFromTime t) (MonthFromTime t) dt) (TimeWithinDay t))"
| "setUTCDate d dt = NaN"

fun setUTCMonth :: "timeval \<Rightarrow> int option \<Rightarrow> timeval" where
  "setUTCMonth (Time t) (Some m) =
     TimeClip (MakeDate (MakeDay (YearFromTime t) m (DateFromTime t)) (TimeWithinDay t))"
| "setUTCMonth d m = NaN"

text \<open>\<open>setUTCFullYear\<close> reads an invalid date as time value 0.\<close>

fun setUTCFullYear :: "timeval \<Rightarrow> int option \<Rightarrow> timeval" where
  "setUTCFullYear (Time t) (Some y) =
     TimeClip (MakeDate (MakeDay y (MonthFromTime t) (DateFromTime t)) (TimeWithinDay t))"
| "setUTCFullYear NaN (Some y) =
     TimeClip (MakeDate (MakeDay y (MonthFromTime 0) (DateFromTime 0)) (TimeWithinDay 0))"
| "setUTCFullYear d None = NaN"

text \<open>
  \<open>a >= b\<close> on two \<open>Date\<close> objects compares their time values; a comparison with
  \<open>NaN\<close> is false.
\<close>

fun dateGe :: "timeval \<Rightarrow> timeval \<Rightarrow> bool" where
  "dateGe (Time a) (Time b) = (b \<le> a)"
| "dateGe a b = False"

section \<open>The date normalizer\<close>

text \<open>The test \<open>/^\d{4}-\d{2}-\d{2}$/.test(v)\<close>.\<close>

fun isoDateShape :: "jsstring \<Rightarrow> bool" where
  "isoDateShape [y1, y2, y3, y4, h1, m1, m2, h2, d1, d2] =
     (isDigit y1 \<and> isDigit y2 \<and> isDigit y3 \<and> isDigit y4 \<and> h1 = 45 \<and>
      isDigit m1 \<and> isDigit m2 \<and> h2 = 45 \<and> isDigit d1 \<and> isDigit d2)"
| "isoDateShape v = False"

text \<open>
  \<open>parseDateSafe\<close>. The generic parser \<open>new Date(v)\<close> of the host, whose result on a
  string that is not in the ISO format depends on the implementation and on the time
  zone of the host, is the parameter \<open>dateParse\<close>. On a string of decimal digits
  \<open>Number\<close> is \<open>digitsValue\<close>.
\<close>

definition parseDateSafe :: "(jsstring \<Rightarrow> timeval) \<Rightarrow> jsstring \<Rightarrow> timeval option" where
  "parseDateSafe dateParse v =
     (if v = [] then None
      else if isoDateShape v then
        (case map digitsValue (splitStr 45 v) of
           [y, m, d] \<Rightarrow> (let dt = Date_UTC y (m - 1) d in if dt = NaN then None else Some dt)
         | _ \<Rightarrow> None)
      else (let d = dateParse v in if d = NaN then None else Some d))"

text \<open>
  The loop \<open>while (s.indexOf('  ') !== -1) s = s.replace('  ', ' ')\<close>:
  \<open>hasDoubleSpace\<close> is its test, \<open>replaceDoubleSpace\<close> replaces the first occurrence.
\<close>

fun hasDoubleSpace :: "jsstring \<Rightarrow> bool" where
  "hasDoubleSpace (a # b # cs) = ((a = 32 \<and> b = 32) \<or> hasDoubleSpace (b # cs))"
| "hasDoubleSpace cs = False"

fun replaceDoubleSpace :: "jsstring \<Rightarrow> jsstring" where
  "replaceDoubleSpace (a # b # cs) =
     (if a = 32 \<and> b = 32 then 32 # cs else a # replaceDoubleSpace (b # cs))"
| "replaceDoubleSpace cs = cs"

lemma length_replaceDoubleSpace:
  "hasDoubleSpace s \<Longrightarrow> length (replaceDoubleSpace s) < length s"
  by (induction s rule: hasDoubleSpace.induct) auto

function collapseSpaces :: "jsstring \<Rightarrow> jsstring" where
  "collapseSpaces s = (if hasDoubleSpace s then collapseSpaces (replaceDoubleSpace s) else s)"
  by pat_completeness auto
termination
  by (relation "measure length") (auto simp: length_replaceDoubleSpace)

declare collapseSpaces.simps [simp del]

text \<open>
  \<open>numUnitSpacing\<close>: the loop over the code units of \<open>str\<close>, with the previous code
  unit \<open>p\<close> (\<open>None\<close> at index 0).
\<close>

fun numUnitSpacingFrom :: "nat option \<Rightarrow> jsstring \<Rightarrow> jsstring" where
  "numUnitSpacingFrom p [] = []"
| "numUnitSpacingFrom p (c # cs) =
     (if (case p of None \<Rightarrow> False | Some q \<Rightarrow> isDigit q \<and> isLetter c \<and> q \<noteq> 32)
      then 32 # c # numUnitSpacingFrom (Some c) cs
      else c # numUnitSpacingFrom (Some c) cs)"

definition numUnitSpacing :: "jsstring \<Rightarrow> jsstring" where
  "numUnitSpacing str = numUnitSpacingFrom None str"

text \<open>The code units of \<open>junk = ['\<cdot>', '\<bullet>', en dash, em dash, '.']\<close>.\<close>

definition junk :: "nat list" where
  "junk = [183, 8226, 8211, 8212, 46]"

text \<open>Lines 67 to 86 of \<open>parseRelativeLinkedInDate\<close>: the normalization of the phrase.\<close>

definition normalizePhrase :: "jsstring \<Rightarrow> jsstring" where
  "normalizePhrase v =
     numUnitSpacing (collapseSpaces
       (foldl (\<lambda>s ch. joinStr [32] (splitStr ch s)) (trim (toLowerCase v)) junk))"

datatype unitKind = Min | Hr | Day_kind | Week | Month | Year

text \<open>
  The table \<open>map\<close> of unit words, searched in the order of its keys (the key \<open>day\<close> is
  \<open>Day_kind\<close>, \<open>Day\<close> being the day number of a time value).
\<close>

definition unitMap :: "(unitKind \<times> jsstring list) list" where
  "unitMap =
     [(Min, [js ''min'', js ''mins'', js ''minute'', js ''minutes'', js ''m'']),
      (Hr, [js ''hr'', js ''hrs'', js ''hour'', js ''hours'', js ''h'']),
      (Day_kind, [js ''day'', js ''days'', js ''d'']),
      (Week, [js ''week'', js ''weeks'', js ''wk'', js ''wks'', js ''w'']),
      (Month, [js ''month'', js ''months'', js ''mo'', js ''mos'']),
      (Year, [js ''yr'', js ''yrs'', js ''year'', js ''years'', js ''y''])]"

fun findKind :: "(unitKind \<times> jsstring list) list \<Rightarrow> jsstring \<Rightarrow> unitKind option" where
  "findKind [] unit = None"
| "findKind ((k, forms) # rest) unit = (if unit \<in> set forms then Some k else findKind rest unit)"

text \<open>The \<open>switch (kind)\<close> on a copy \<open>d\<close> of \<open>now\<close>.\<close>

fun subtractUnits :: "unitKind \<Rightarrow> timeval \<Rightarrow> int \<Rightarrow> timeval" where
  "subtractUnits Min d n = setUTCMinutes d (numMinus (getUTCMinutes d) n)"
| "subtractUnits Hr d n = setUTCHours d (numMinus (getUTCHours d) n)"
| "subtractUnits Day_kind d n = setUTCDate d (numMinus (getUTCDate d) n)"
| "subtractUnits Week d n = setUTCDate d (numMinus (getUTCDate d) (n * 7))"
| "subtractUnits Month d n = setUTCMonth d (numMinus (getUTCMonth d) n)"
| "subtractUnits Year d n = setUTCFullYear d (numMinus (getUTCFullYear d) n)"

text \<open>
  Lines 91 to 126: the tokens \<open>parts\<close>, the optional prefix, the quantity and the unit.
  \<open>parts\<close> is never empty (\<open>split\<close> returns at least one string); the optional
  \<open>ago\<close> after the unit only moves \<open>idx\<close>, which is not read again.
\<close>

definition parseTokens :: "jsstring list \<Rightarrow> int \<Rightarrow> timeval option" where
  "parseTokens parts now =
     (let rest = (case parts of
                    p # ps \<Rightarrow>
                      if p \<in> set [js ''about'', js ''approx'', js ''approximately''] then ps
                      else parts
                  | [] \<Rightarrow> parts)
      in case rest of
           [] \<Rightarrow> None
         | q # rest' \<Rightarrow>
             (let n = parseInt q in
              if \<not> isFinite n then None
              else case rest' of
                     [] \<Rightarrow> None
                   | unit # _ \<Rightarrow>
                       (case findKind unitMap unit of
                          None \<Rightarrow> None
                        | Some kind \<Rightarrow> Some (subtractUnits kind (TimeClip now) (the n)))))"

text \<open>
  \<open>parseRelativeLinkedInDate(v, now)\<close>; \<open>now\<close> is the time value of the \<open>Date\<close> passed
  (by default the clock, \<open>new Date()\<close>), and \<open>new Date(now)\<close> is \<open>TimeClip now\<close>.
\<close>

definition parseRelativeLinkedInDate :: "jsstring \<Rightarrow> int \<Rightarrow> timeval option" where
  "parseRelativeLinkedInDate v now =
     (if v = [] then None
      else let s = normalizePhrase v in
        if s = js ''just now'' then Some (TimeClip now)
        else if s = js ''yesterday'' then
          Some (setUTCDate (TimeClip now) (numMinus (getUTCDate (TimeClip now)) 1))
        else parseTokens (splitStr 32 s) now)"

text \<open>\<open>parseAnyDate\<close>, with the clock read by the default argument made explicit.\<close>

definition parseAnyDate :: "(jsstring \<Rightarrow> timeval) \<Rightarrow> int \<Rightarrow> jsstring \<Rightarrow> timeval option" where
  "parseAnyDate dateParse now v =
     (case parseDateSafe dateParse v of
        Some absDate \<Rightarrow> Some absDate
      | None \<Rightarrow> parseRelativeLinkedInDate v now)"

section \<open>The sibling parser\<close>

text \<open>
  \<open>parseLinkedInRelative\<close> (\<open>utils/relativeDate.js\<close>) is a second parser of relative
  phrases, which the dashboard does not call. Its normalization (lines 5 to 11) and the
  test of line 13, under which it returns \<open>now\<close>, are modelled; its search for a
  quantity and a unit by regular expressions is not.
  \<open>removeEdited\<close> is \<open>.replace(/edited/g, "")\<close>, \<open>replaceDots\<close> is
  \<open>.replace(/[\<cdot>\<bullet>]/g, " ")\<close>, \<open>removeAgo\<close> is \<open>.replace(/\bago\b/g, "")\<close> with the
  code unit before the position as its first argument, and \<open>collapseWhiteSpace\<close> is
  \<open>.replace(/\s+/g, " ")\<close> with a flag that tells whether a run of white space is being
  read.
\<close>

fun removeEdited :: "jsstring \<Rightarrow> jsstring" where
  "removeEdited [] = []"
| "removeEdited (c # cs) =
     (if startsWith (c # cs) (js ''edited'') then removeEdited (drop 5 cs)
      else c # removeEdited cs)"

definition replaceDots :: "jsstring \<Rightarrow> jsstring" where
  "replaceDots s = map (\<lambda>c. if c = 183 \<or> c = 8226 then 32 else c) s"

definition isWordChar :: "nat \<Rightarrow> bool" where
  "isWordChar c \<longleftrightarrow> isDigit c \<or> (65 \<le> c \<and> c \<le> 90) \<or> isLetter c \<or> c = 95"

fun removeAgo :: "nat option \<Rightarrow> jsstring \<Rightarrow> jsstring" where
  "removeAgo p [] = []"
| "removeAgo p (c # cs) =
     (if startsWith (c # cs) (js ''ago'') \<and>
         \<not> (case p of None \<Rightarrow> False | Some q \<Rightarrow> isWordChar q) \<and>
         \<not> (case drop 2 cs of [] \<Rightarrow> False | n # _ \<Rightarrow> isWordChar n)
      then removeAgo (Some 111) (drop 2 cs)
      else c # removeAgo (Some c) cs)"

fun collapseWhiteSpace :: "bool \<Rightarrow> jsstring \<Rightarrow> jsstring" where
  "collapseWhiteSpace inRun [] = []"
| "collapseWhiteSpace inRun (c # cs) =
     (if isWhiteSpace c then
        (if inRun then collapseWhiteSpace True cs else 32 # collapseWhiteSpace True cs)
      else c # collapseWhiteSpace False cs)"

definition normalizeRelative :: "jsstring \<Rightarrow> jsstring" where
  "normalizeRelative input =
     trim (collapseWhiteSpace False (removeAgo None (replaceDots (removeEdited (toLowerCase input)))))"

definition returnsNow :: "jsstring \<Rightarrow> bool" where
  "returnsNow input \<longleftrightarrow>
     input \<noteq> [] \<and> (let s = normalizeRelative input in s = js ''just now'' \<or> s = js ''now'')"

section \<open>The filter and sort pipeline\<close>

text \<open>
  The stages of \<open>filtered\<close>, in the order of the source. \<open>now\<close> is the clock read by
  \<open>new Date()\<close> in the period stage.
\<close>

definition authorStage :: "jsstring list \<Rightarrow> post list \<Rightarrow> post list" where
  "authorStage authors out =
     (if authors \<noteq> [] then filter (\<lambda>r. author r \<in> set authors) out else out)"

definition tagStage :: "jsstring list \<Rightarrow> post list \<Rightarrow> post list" where
  "tagStage tgs out =
     (if tgs \<noteq> [] then filter (\<lambda>r. list_ex (\<lambda>t. t \<in> set tgs) (tags r)) out else out)"

definition cutoffDate :: "int \<Rightarrow> int \<Rightarrow> timeval" where
  "cutoffDate now period = setUTCDate (Time now) (numMinus (getUTCDate (Time now)) period)"

definition periodStage :: "int \<Rightarrow> int \<Rightarrow> post list \<Rightarrow> post list" where
  "periodStage now period out =
     (if period > 0 then
        filter (\<lambda>r. case dateObj r of None \<Rightarrow> False
                    | Some d \<Rightarrow> dateGe d (cutoffDate now period)) out
      else out)"

definition searchStage :: "jsstring \<Rightarrow> post list \<Rightarrow> post list" where
  "searchStage search out =
     (if trim search \<noteq> [] then
        (let q = toLowerCase (trim search) in
         filter (\<lambda>r. includesStr (toLowerCase (title r)) q \<or>
                     includesStr (toLowerCase (author r)) q \<or>
                     includesStr (toLowerCase (summary r)) q \<or>
                     includesStr (toLowerCase (joinStr [44] (tags r))) q) out)
      else out)"

definition filterStages ::
  "int \<Rightarrow> post list \<Rightarrow> jsstring list \<Rightarrow> jsstring list \<Rightarrow> int \<Rightarrow> jsstring \<Rightarrow> post list" where
  "filterStages now rows authors tgs period search =
     searchStage search (periodStage now period (tagStage tgs (authorStage authors rows)))"

text \<open>
  The comparator passed to \<open>sort\<close>. \<open>localeCompare\<close> is the collation of the host, a
  parameter. The result is a number that may be \<open>NaN\<close> (\<open>None\<close>), which arises from
  the time value of an invalid \<open>Date\<close>.
\<close>

definition timeOrZero :: "timeval option \<Rightarrow> int option" where
  "timeOrZero d = (case d of None \<Rightarrow> Some 0 | Some NaN \<Rightarrow> None | Some (Time t) \<Rightarrow> Some t)"

definition sortCompare ::
  "(jsstring \<Rightarrow> jsstring \<Rightarrow> int) \<Rightarrow> post \<Rightarrow> post \<Rightarrow> int option" where
  "sortCompare localeCompare a b =
     (case (timeOrZero (dateObj a), timeOrZero (dateObj b)) of
        (Some at, Some bt) \<Rightarrow>
          if bt \<noteq> at then Some (bt - at)
          else (let s = localeCompare (author a) (author b) in
                if s \<noteq> 0 then Some s else Some (localeCompare (title a) (title b)))
      | _ \<Rightarrow> None)"

text \<open>
  \<open>Array.prototype.sort\<close> with a comparator: a stable sort, in which a comparator
  result of \<open>NaN\<close> counts as 0. It is modelled as a stable insertion sort. Where the
  comparator is not a consistent order on the rows, as with a row that holds an invalid
  \<open>Date\<close> (comparator result \<open>NaN\<close>), the order that an engine produces depends on the
  implementation and may differ from the one of the model; the output is a permutation
  of the input in either case.
\<close>

fun insertBy :: "('a \<Rightarrow> 'a \<Rightarrow> int option) \<Rightarrow> 'a \<Rightarrow> 'a list \<Rightarrow> 'a list" where
  "insertBy cmp x [] = [x]"
| "insertBy cmp x (y # ys) =
     (if (case cmp x y of None \<Rightarrow> 0 | Some v \<Rightarrow> v) \<le> 0 then x # y # ys
      else y # insertBy cmp x ys)"

definition sortBy :: "('a \<Rightarrow> 'a \<Rightarrow> int option) \<Rightarrow> 'a list \<Rightarrow> 'a list" where
  "sortBy cmp xs = foldr (insertBy cmp) xs []"

definition filtered ::
  "(jsstring \<Rightarrow> jsstring \<Rightarrow> int) \<Rightarrow> int \<Rightarrow> post list \<Rightarrow> jsstring list \<Rightarrow> jsstring list \<Rightarrow>
   int \<Rightarrow> jsstring \<Rightarrow> post list" where
  "filtered localeCompare now rows authors tgs period search =
     sortBy (sortCompare localeCompare) (filterStages now rows authors tgs period search)"

section \<open>The limit stage\<close>

text \<open>
  \<open>Array.prototype.slice(0, end)\<close> for an integral \<open>end\<close>: a negative \<open>end\<close> counts from
  the end of the array, and the bounds are clamped to the array.
\<close>

definition slice0 :: "'a list \<Rightarrow> int \<Rightarrow> 'a list" where
  "slice0 xs end =
     (let len = int (length xs);
          final = (if end < 0 then max (len + end) 0 else min end len)
      in take (nat final) xs)"

text \<open>
  \<open>limited = (!maxResults || maxResults === -1 ? filtered : filtered.slice(0, maxResults))\<close>.
  \<open>maxResults\<close> is the number chosen in the select box (100, 200, 500 or -1); on an
  integer, \<open>!maxResults\<close> holds exactly for 0. The argument \<open>out\<close> is the list
  \<open>filtered\<close>.
\<close>

definition limited :: "int \<Rightarrow> 'a list \<Rightarrow> 'a list" where
  "limited maxResults out =
     (if maxResults = 0 \<or> maxResults = -1 then out else slice0 out maxResults)"

section \<open>Notions of the specification\<close>

text \<open>
  A valid calendar date: a month from 1 to 12 and a day from 1 to the length of the
  month in the proleptic Gregorian calendar.
\<close>

definition daysInMonth :: "int \<Rightarrow> int \<Rightarrow> int" where
  "daysInMonth y m =
     (if m = 2 then (if DaysInYear y = 366 then 29 else 28)
      else if m = 4 \<or> m = 6 \<or> m = 9 \<or> m = 11 then 30 else 31)"

definition validCalendarDate :: "int \<Rightarrow> int \<Rightarrow> int \<Rightarrow> bool" where
  "validCalendarDate y m d \<longleftrightarrow> 1 \<le> m \<and> m \<le> 12 \<and> 1 \<le> d \<and> d \<le> daysInMonth y m"

text \<open>
  The year, month and day that a string of the form \<open>YYYY-MM-DD\<close> denotes.
\<close>

definition isoYear :: "jsstring \<Rightarrow> int" where
  "isoYear v = digitsValue (take 4 v)"

definition isoMonth :: "jsstring \<Rightarrow> int" where
  "isoMonth v = digitsValue (take 2 (drop 5 v))"

definition isoDay :: "jsstring \<Rightarrow> int" where
  "isoDay v = digitsValue (take 2 (drop 8 v))"

text \<open>
  A post is within the window that starts at \<open>cutoff\<close> when its \<open>dateObj\<close> is present, is
  a valid date, and is at or after \<open>cutoff\<close>.
\<close>

definition withinWindow :: "int \<Rightarrow> post \<Rightarrow> bool" where
  "withinWindow cutoff r = (case dateObj r of Some (Time t) \<Rightarrow> cutoff \<le> t | _ \<Rightarrow> False)"

text \<open>
  The order that the specification gives for the sort: primary key the time value of
  \<open>dateObj\<close>, descending, with an absent \<open>dateObj\<close> read as 0; then the author,
  ascending; then the title, ascending (both under \<open>localeCompare\<close>).
\<close>

definition dateKey :: "post \<Rightarrow> int" where
  "dateKey p = (case dateObj p of Some (Time t) \<Rightarrow> t | _ \<Rightarrow> 0)"

definition sortsBefore :: "(jsstring \<Rightarrow> jsstring \<Rightarrow> int) \<Rightarrow> post \<Rightarrow> post \<Rightarrow> bool" where
  "sortsBefore localeCompare a b \<longleftrightarrow>
     dateKey b < dateKey a \<or>
     (dateKey a = dateKey b \<and>
      (localeCompare (author a) (author b) < 0 \<or>
       (localeCompare (author a) (author b) = 0 \<and> localeCompare (title a) (title b) < 0)))"

section \<open>Example rows\<close>

text \<open>
  The two rows of the end-to-end scenario of the specification, evaluated at
  \<open>now = 2024-01-15T00:00:00Z\<close> (time value 1705276800000), a row whose date could
  not be parsed, and a row dated on the day before the epoch.
\<close>

definition postT1 :: post where
  "postT1 = \<lparr>incl = js ''Y'', dateRaw = js ''2024-01-10'', dateObj = Some (Time 1704844800000),
     author = js ''A'', title = js ''T1'', summary = [], tags = [js ''x'', js ''y''],
     url = js ''u1''\<rparr>"

definition postT2 :: post where
  "postT2 = \<lparr>incl = [], dateRaw = js ''3 days ago'', dateObj = Some (Time 1705017600000),
     author = js ''B'', title = js ''T2'', summary = [], tags = [js ''y''],
     url = js ''u2''\<rparr>"

definition postNoDate :: post where
  "postNoDate = \<lparr>incl = [], dateRaw = js ''banana'', dateObj = None,
     author = js ''C'', title = js ''T3'', summary = [], tags = [],
     url = js ''u3''\<rparr>"

definition post1969 :: post where
  "post1969 = \<lparr>incl = [], dateRaw = js ''1969-12-31'', dateObj = Some (Time (- 86400000)),
     author = js ''D'', title = js ''T4'', summary = [], tags = [],
     url = js ''u4''\<rparr>"

text \<open>
  A comparison of strings by code units, the instance of \<open>localeCompare\<close> in the
  examples.
\<close>

fun codeUnitCompare :: "jsstring \<Rightarrow> jsstring \<Rightarrow> int" where
  "codeUnitCompare [] [] = 0"
| "codeUnitCompare [] (y # ys) = -1"
| "codeUnitCompare (x # xs) [] = 1"
| "codeUnitCompare (x # xs) (y # ys) =
     (if x < y then -1 else if y < x then 1 else codeUnitCompare xs ys)"

section \<open>Auxiliary lemmas\<close>

subsection \<open>Facts for evaluation\<close>

lemmas string_eval = js_def toLowerCase_def trim_def isWhiteSpace_def junk_def
  collapseSpaces.simps numUnitSpacing_def isDigit_def isLetter_def normalizePhrase_def

lemmas post_eval = postT1_def postT2_def postNoDate_def post1969_def

lemmas parse_eval = parseRelativeLinkedInDate_def parseTokens_def parseInt_def isFinite_def
  digitsValue_def unitMap_def

lemmas date_eval = Date_UTC_def MakeDay_def MakeDate_def MakeTime_def DaysInYear_def
  DayFromYear_def daysBeforeMonth_def TimeClip_def msPerDay_def msPerHour_def
  msPerMinute_def msPerSecond_def

lemmas calendar_eval = YearFromTime_def MonthFromTime_def DateFromTime_def DayWithinYear_def
  InLeapYear_def Day_def TimeWithinDay_def yearUp.simps HourFromTime_def MinFromTime_def
  SecFromTime_def msFromTime_def

subsection \<open>Moving a date by whole days\<close>

lemma MonthFromTime_range: "0 \<le> MonthFromTime t \<and> MonthFromTime t \<le> 11"
  by (simp add: MonthFromTime_def Let_def)

lemma DateFromTime_eq:
  "DateFromTime t = DayWithinYear t - daysBeforeMonth (MonthFromTime t) (InLeapYear t) + 1"
  by (simp add: DateFromTime_def daysBeforeMonth_def Let_def)

lemma MakeDay_own_month:
  "MakeDay (YearFromTime t) (MonthFromTime t) dt = Day t - DateFromTime t + dt"
proof -
  have d: "MonthFromTime t div 12 = 0" and m: "MonthFromTime t mod 12 = MonthFromTime t"
    using MonthFromTime_range [of t] by simp_all
  show ?thesis
    unfolding MakeDay_def Let_def d m DateFromTime_eq
    by (simp add: InLeapYear_def DayWithinYear_def)
qed

lemma Day_TimeWithinDay: "MakeDate (Day t) (TimeWithinDay t) = t"
  by (simp add: MakeDate_def Day_def TimeWithinDay_def)

lemma MakeDate_shift: "MakeDate (Day t - n) (TimeWithinDay t) = t - n * msPerDay"
  using Day_TimeWithinDay [of t] by (simp add: MakeDate_def algebra_simps)

text \<open>
  \<open>d.setUTCDate(d.getUTCDate() - n)\<close> moves a valid date back by \<open>n\<close> days of
  86400000 ms (an invalid date results when the new time value leaves the range of
  \<open>TimeClip\<close>).
\<close>

lemma setUTCDate_minus:
  "setUTCDate (Time t) (numMinus (getUTCDate (Time t)) n) = TimeClip (t - n * msPerDay)"
  by (simp add: MakeDay_own_month MakeDate_shift)

lemma cutoffDate_eq: "cutoffDate now period = TimeClip (now - period * msPerDay)"
  unfolding cutoffDate_def by (rule setUTCDate_minus)

subsection \<open>The sort and the literal phrases\<close>

lemma insertBy_mset: "mset (insertBy cmp x xs) = add_mset x (mset xs)"
  by (induction xs) auto

lemma sortBy_mset: "mset (sortBy cmp xs) = mset xs"
  by (induction xs) (auto simp: sortBy_def insertBy_mset)

text \<open>The sorted output holds no post that is not among the rows.\<close>

lemma filtered_mset:
  "mset (filtered localeCompare now rows authors tgs period search) \<subseteq># mset rows"
proof -
  have a: "mset (authorStage authors xs) \<subseteq># mset xs" for xs
    by (simp add: authorStage_def)
  have t: "mset (tagStage tgs xs) \<subseteq># mset xs" for xs
    by (simp add: tagStage_def)
  have p: "mset (periodStage now period xs) \<subseteq># mset xs" for xs
    by (simp add: periodStage_def)
  have s: "mset (searchStage search xs) \<subseteq># mset xs" for xs
    by (simp add: searchStage_def Let_def)
  show ?thesis
    unfolding filtered_def filterStages_def sortBy_mset
    by (meson a t p s subset_mset.order_trans)
qed

text \<open>
  The two literal phrases that \<open>parseRelativeLinkedInDate\<close> knows: \<open>just now\<close> gives
  \<open>now\<close>, and \<open>yesterday\<close> gives \<open>now\<close> minus one day.
\<close>

lemma parseRelative_just_now:
  "parseRelativeLinkedInDate (js ''just now'') T = Some (TimeClip T)"
  by (simp add: parse_eval string_eval)

lemma parseRelative_yesterday:
  "\<bar>T\<bar> \<le> 8640000000000000 \<Longrightarrow>
   parseRelativeLinkedInDate (js ''yesterday'') T = Some (TimeClip (T - msPerDay))"
proof -
  assume "\<bar>T\<bar> \<le> 8640000000000000"
  then have t: "TimeClip T = Time T" by (simp add: TimeClip_def)
  have "normalizePhrase (js ''yesterday'') = js ''yesterday''"
    by (simp add: string_eval)
  then show ?thesis
    using setUTCDate_minus [of T 1]
    by (simp add: parseRelativeLinkedInDate_def t js_def del: setUTCDate.simps numMinus.simps getUTCDate.simps)
qed

subsection \<open>The period stage and the clock\<close>

text \<open>
  The active stage is a filter by the window; the stage with a period that is not
  positive does nothing. The cutoff is a valid time value for every reading of the
  clock after the epoch and every window of at most 100000000 days.
\<close>

lemma cutoff_valid:
  "0 \<le> now \<Longrightarrow> now \<le> 8640000000000000 \<Longrightarrow> 0 < period \<Longrightarrow> period \<le> 100000000 \<Longrightarrow>
   \<bar>now - period * msPerDay\<bar> \<le> 8640000000000000"
  by (simp add: msPerDay_def)

lemma periodStage_active:
  assumes p: "0 < period" and c: "\<bar>now - period * msPerDay\<bar> \<le> 8640000000000000"
  shows "periodStage now period rows = filter (withinWindow (now - period * msPerDay)) rows"
proof -
  have cut: "cutoffDate now period = Time (now - period * msPerDay)"
    using c by (simp add: cutoffDate_eq TimeClip_def)
  have w: "(\<lambda>r. case dateObj r of None \<Rightarrow> False | Some d \<Rightarrow> dateGe d (Time k)) = withinWindow k"
    for k
    by (rule ext) (auto simp: withinWindow_def split: option.splits timeval.splits)
  show ?thesis
    unfolding periodStage_def cut w using p by simp
qed

lemma periodStage_inactive: "period \<le> 0 \<Longrightarrow> periodStage now period rows = rows"
  by (simp add: periodStage_def)

lemma withinWindow_dated: "withinWindow cutoff r \<Longrightarrow> dateObj r \<noteq> None"
  by (auto simp: withinWindow_def split: option.splits)

lemma withinWindow_mono: "c1 \<le> c2 \<Longrightarrow> withinWindow c2 r \<Longrightarrow> withinWindow c1 r"
  by (auto simp: withinWindow_def split: option.splits timeval.splits)

lemma searchStage_filter: "searchStage search (filter P xs) = filter P (searchStage search xs)"
  by (auto simp: searchStage_def Let_def intro: filter_cong)

lemma set_sortBy: "set (sortBy cmp xs) = set xs"
  using sortBy_mset [of cmp xs] by (metis set_mset_mset)

text \<open>
  With an active period stage, the rows that pass all stages at a later reading of the
  clock are those that pass at the earlier reading and are still within the window.
\<close>

lemma filterStages_later:
  assumes p: "0 < period" and le: "now1 \<le> now2"
    and c1: "\<bar>now1 - period * msPerDay\<bar> \<le> 8640000000000000"
    and c2: "\<bar>now2 - period * msPerDay\<bar> \<le> 8640000000000000"
  shows "filterStages now2 rows authors tgs period search =
         filter (withinWindow (now2 - period * msPerDay))
           (filterStages now1 rows authors tgs period search)"
proof -
  let ?Y = "tagStage tgs (authorStage authors rows)"
  let ?k1 = "now1 - period * msPerDay" and ?k2 = "now2 - period * msPerDay"
  have k: "?k1 \<le> ?k2" using le by simp
  have "filter (withinWindow ?k2) (filter (withinWindow ?k1) zs) = filter (withinWindow ?k2) zs"
    for zs using withinWindow_mono [OF k] by (auto intro: filter_cong)
  then show ?thesis
    by (simp only: filterStages_def periodStage_active [OF p c1] periodStage_active [OF p c2]
        searchStage_filter)
qed

subsection \<open>The year of a time value\<close>

lemma DaysInYear_bounds: "365 \<le> DaysInYear y \<and> DaysInYear y \<le> 366"
  by (simp add: DaysInYear_def)

lemma DayFromYear_1970: "DayFromYear 1970 = 0"
  by (simp add: DayFromYear_def)

lemma DayFromYear_pred: "DayFromYear (y - 1) = DayFromYear y - DaysInYear (y - 1)"
  using DayFromYear_Suc [of "y - 1"] by simp

lemma DayFromYear_upper: "0 \<le> k \<Longrightarrow> DayFromYear (1970 + k) \<le> 366 * k"
proof (induction k rule: int_ge_induct)
  case base
  then show ?case by (simp add: DayFromYear_1970)
next
  case (step i)
  have "DayFromYear (1970 + (i + 1)) = DayFromYear (1970 + i) + DaysInYear (1970 + i)"
    using DayFromYear_Suc [of "1970 + i"] by (simp add: add.assoc)
  with step DaysInYear_bounds [of "1970 + i"] show ?case by simp
qed

lemma DayFromYear_lower: "k \<le> 0 \<Longrightarrow> DayFromYear (1970 + k) \<le> 365 * k"
proof (induction k rule: int_le_induct)
  case base
  then show ?case by (simp add: DayFromYear_1970)
next
  case (step i)
  have "DayFromYear (1970 + (i - 1)) = DayFromYear (1970 + i) - DaysInYear (1970 + i - 1)"
    using DayFromYear_pred [of "1970 + i"] by (simp add: algebra_simps)
  with step DaysInYear_bounds [of "1970 + i - 1"] show ?case by simp
qed

lemma DayFromYear_mono: "y \<le> z \<Longrightarrow> DayFromYear y \<le> DayFromYear z"
proof (induction z rule: int_ge_induct)
  case base
  then show ?case by simp
next
  case (step i)
  with DayFromYear_Suc [of i] DaysInYear_bounds [of i] show ?case by simp
qed

lemma DayFromYear_strict: "y < z \<Longrightarrow> DayFromYear y < DayFromYear z"
  using DayFromYear_mono [of "y + 1" z] DayFromYear_Suc [of y] DaysInYear_bounds [of y]
  by simp

lemma yearUp_correct:
  "DayFromYear y \<le> d \<Longrightarrow> DayFromYear (yearUp d y) \<le> d \<and> d < DayFromYear (yearUp d y + 1)"
proof (induction d y rule: yearUp.induct)
  case (1 d y)
  show ?case
  proof (cases "DayFromYear (y + 1) \<le> d")
    case True
    with 1 show ?thesis by (simp add: yearUp.simps [of d y])
  next
    case False
    with 1 show ?thesis by (simp add: yearUp.simps [of d y])
  qed
qed

lemma yearUp_start: "DayFromYear (1970 + (if 0 \<le> d then d div 366 else d div 365)) \<le> d"
proof (cases "0 \<le> d")
  case True
  then have "0 \<le> d div 366" by simp
  from DayFromYear_upper [OF this] have "DayFromYear (1970 + d div 366) \<le> 366 * (d div 366)" .
  moreover have "366 * (d div 366) \<le> d" 
    using mult_div_mod_eq [of 366 d] pos_mod_sign [of 366 d] by linarith
  ultimately show ?thesis using True by simp
next
  case False
  then have "d div 365 \<le> 0"
    using mult_div_mod_eq [of 365 d] pos_mod_sign [of 365 d] by linarith
  from DayFromYear_lower [OF this] have "DayFromYear (1970 + d div 365) \<le> 365 * (d div 365)" .
  moreover have "365 * (d div 365) \<le> d"
    using mult_div_mod_eq [of 365 d] pos_mod_sign [of 365 d] by linarith 
  ultimately show ?thesis using False by simp
qed

lemma YearFromTime_bounds:
  "DayFromYear (YearFromTime t) \<le> Day t \<and> Day t < DayFromYear (YearFromTime t + 1)"
  unfolding YearFromTime_def Let_def by (rule yearUp_correct) (rule yearUp_start)

lemma YearFromTime_unique:
  assumes "DayFromYear y \<le> Day t" and "Day t < DayFromYear (y + 1)"
  shows "YearFromTime t = y"
proof (rule ccontr)
  assume ne: "YearFromTime t \<noteq> y"
  note b = YearFromTime_bounds [of t]
  show False
  proof (cases "YearFromTime t < y")
    case True
    then have "DayFromYear (YearFromTime t + 1) \<le> DayFromYear y"
      by (simp add: DayFromYear_mono)
    with b assms show False by simp
  next
    case False
    with ne have "y + 1 \<le> YearFromTime t" by simp
    then have "DayFromYear (y + 1) \<le> DayFromYear (YearFromTime t)"
      by (rule DayFromYear_mono)
    with b assms show False by simp
  qed
qed


lemma month_cases:
  "1 \<le> m \<Longrightarrow> m \<le> 12 \<Longrightarrow>
   m = 1 \<or> m = 2 \<or> m = 3 \<or> m = 4 \<or> m = 5 \<or> m = 6 \<or> m = 7 \<or> m = 8 \<or> m = 9 \<or> m = 10 \<or>
   m = 11 \<or> m = (12::int)"
  by arith

lemma Day_of_midnight: "Day (MakeDate D 0) = D \<and> TimeWithinDay (MakeDate D 0) = 0"
  by (simp add: Day_def TimeWithinDay_def MakeDate_def msPerDay_def)

lemma civil_roundtrip:
  assumes v: "validCalendarDate y m d"
  defines "t \<equiv> MakeDate (MakeDay y (m - 1) d) 0"
  shows "YearFromTime t = y \<and> MonthFromTime t = m - 1 \<and> DateFromTime t = d \<and>
         TimeWithinDay t = 0"
proof -
  define l :: int where "l = (if DaysInYear y = 366 then 1 else 0)"
  from v have m: "1 \<le> m" "m \<le> 12" and d: "1 \<le> d" "d \<le> daysInMonth y m"
    by (simp_all add: validCalendarDate_def)
  have dv: "(m - 1) div 12 = 0" and md: "(m - 1) mod 12 = m - 1" using m by simp_all
  have D: "MakeDay y (m - 1) d = DayFromYear y + daysBeforeMonth (m - 1) l + d - 1"
    by (simp add: MakeDay_def dv md l_def)
  have day: "Day t = DayFromYear y + daysBeforeMonth (m - 1) l + d - 1"
    and twd: "TimeWithinDay t = 0"
    using Day_of_midnight [of "MakeDay y (m - 1) d"] by (simp_all add: t_def D)
  have diy: "DaysInYear y = 365 + l"
    using DaysInYear_bounds [of y] by (auto simp: l_def DaysInYear_def)
  have l01: "l = 0 \<or> l = 1" by (simp add: l_def)
  have dim: "daysInMonth y m = (if m = 2 then 28 + l
      else if m = 4 \<or> m = 6 \<or> m = 9 \<or> m = 11 then 30 else 31)"
    by (simp add: daysInMonth_def l_def)
  have rng: "0 \<le> daysBeforeMonth (m - 1) l + d - 1 \<and>
             daysBeforeMonth (m - 1) l + d - 1 < 365 + l"
    using month_cases [OF m] l01 d unfolding dim
    by (elim disjE) (simp_all add: daysBeforeMonth_def)
  have yr: "YearFromTime t = y"
  proof (rule YearFromTime_unique)
    show "DayFromYear y \<le> Day t" using rng by (simp add: day)
    show "Day t < DayFromYear (y + 1)" using rng by (simp add: day DayFromYear_Suc diy)
  qed
  have leap: "InLeapYear t = l" by (simp add: InLeapYear_def yr l_def)
  have dwy: "DayWithinYear t = daysBeforeMonth (m - 1) l + d - 1"
    by (simp add: DayWithinYear_def yr day)
  have mo: "MonthFromTime t = m - 1"
    using month_cases [OF m] l01 d unfolding dim
    by (elim disjE) (simp_all add: MonthFromTime_def Let_def dwy leap daysBeforeMonth_def)
  have "DateFromTime t = d"
    unfolding DateFromTime_eq mo leap dwy by simp
  with yr mo twd show ?thesis by simp
qed


subsection \<open>The strict ISO path on valid dates\<close>

lemma isDigit_not_hyphen: "isDigit c \<Longrightarrow> c \<noteq> 45"
  by (simp add: isDigit_def)

lemma split_iso_chars:
  "y1 \<noteq> 45 \<Longrightarrow> y2 \<noteq> 45 \<Longrightarrow> y3 \<noteq> 45 \<Longrightarrow> y4 \<noteq> 45 \<Longrightarrow> m1 \<noteq> 45 \<Longrightarrow> m2 \<noteq> 45 \<Longrightarrow>
   d1 \<noteq> 45 \<Longrightarrow> d2 \<noteq> 45 \<Longrightarrow>
   splitStr 45 [y1, y2, y3, y4, 45, m1, m2, 45, d1, d2] = [[y1, y2, y3, y4], [m1, m2], [d1, d2]]"
  by simp

lemma isoDateShape_split:
  "isoDateShape v \<Longrightarrow> map digitsValue (splitStr 45 v) = [isoYear v, isoMonth v, isoDay v]"
  by (erule isoDateShape.elims)
    (simp_all add: split_iso_chars isDigit_not_hyphen isoYear_def isoMonth_def isoDay_def
      del: splitStr.simps)

lemma digit_range: "isDigit c \<Longrightarrow> 0 \<le> int c - 48 \<and> int c - 48 \<le> 9"
  by (simp add: isDigit_def)

lemma year_digits_range:
  "isDigit y1 \<Longrightarrow> isDigit y2 \<Longrightarrow> isDigit y3 \<Longrightarrow> isDigit y4 \<Longrightarrow>
   0 \<le> digitsValue [y1, y2, y3, y4] \<and> digitsValue [y1, y2, y3, y4] \<le> 9999"
  using digit_range [of y1] digit_range [of y2] digit_range [of y3] digit_range [of y4]
  by (simp add: digitsValue_def)

lemma isoYear_range: "isoDateShape v \<Longrightarrow> 0 \<le> isoYear v \<and> isoYear v \<le> 9999"
  by (erule isoDateShape.elims) (simp_all add: isoYear_def year_digits_range)

lemma daysBeforeMonth_range:
  assumes that: "l = 0 \<or> l = 1" and v: "validCalendarDate y m d"
  shows "0 \<le> daysBeforeMonth (m - 1) l + d - 1 \<and> daysBeforeMonth (m - 1) l + d - 1 < 366"
proof -
  from v have m: "1 \<le> m" "m \<le> 12" and d: "1 \<le> d" "d \<le> daysInMonth y m"
    by (simp_all add: validCalendarDate_def)
  have "daysInMonth y m \<le> (if m = 2 then 29 else if m = 4 \<or> m = 6 \<or> m = 9 \<or> m = 11 then 30 else 31)"
    by (simp add: daysInMonth_def)
  with d have d': "d \<le> (if m = 2 then 29 else if m = 4 \<or> m = 6 \<or> m = 9 \<or> m = 11 then 30 else 31)"
    by linarith
  show ?thesis
    using month_cases [OF m] that d(1) d'
    by (elim disjE) (simp_all add: daysBeforeMonth_def)
qed

lemma Date_UTC_valid:
  assumes v: "validCalendarDate y m d" and y: "100 \<le> y" "y \<le> 9999"
  shows "Date_UTC y (m - 1) d = Time (MakeDate (MakeDay y (m - 1) d) 0)"
proof -
  from v have m: "1 \<le> m" "m \<le> 12" by (simp_all add: validCalendarDate_def)
  have dv: "(m - 1) div 12 = 0" and md: "(m - 1) mod 12 = m - 1" using m by simp_all
  define l :: int where "l = (if DaysInYear y = 366 then 1 else 0)"
  have D: "MakeDay y (m - 1) d = DayFromYear y + (daysBeforeMonth (m - 1) l + d - 1)"
    by (simp add: MakeDay_def dv md l_def)
  have r: "0 \<le> daysBeforeMonth (m - 1) l + d - 1 \<and> daysBeforeMonth (m - 1) l + d - 1 < 366"
    by (rule daysBeforeMonth_range [OF _ v]) (simp add: l_def)
  have lo: "DayFromYear 100 \<le> DayFromYear y" using y by (simp add: DayFromYear_mono)
  have hi: "DayFromYear y \<le> DayFromYear 9999" using y by (simp add: DayFromYear_mono)
  have "DayFromYear 100 = - 683003" and "DayFromYear 9999 = 2932532"
    by (simp_all add: DayFromYear_def)
  with lo hi r have "- 683003 \<le> MakeDay y (m - 1) d \<and> MakeDay y (m - 1) d \<le> 2932898"
    unfolding D by linarith
  then have "\<bar>MakeDate (MakeDay y (m - 1) d) 0\<bar> \<le> 8640000000000000"
    unfolding MakeDate_def msPerDay_def by linarith
  then show ?thesis
    using y by (simp add: Date_UTC_def MakeTime_def TimeClip_def)
qed

text \<open>
  The strict ISO path on a valid calendar date of the years 0100 to 9999: the result is
  the UTC midnight of that date, whatever the generic parser \<open>dateParse\<close> is.
\<close>

lemma parseDateSafe_iso_utc_midnight:
  assumes s: "isoDateShape v"
    and v: "validCalendarDate (isoYear v) (isoMonth v) (isoDay v)"
    and y: "100 \<le> isoYear v"
  shows "\<exists>t. parseDateSafe dateParse v = Some (Time t) \<and>
           YearFromTime t = isoYear v \<and> MonthFromTime t = isoMonth v - 1 \<and>
           DateFromTime t = isoDay v \<and> TimeWithinDay t = 0"
proof -
  have ne: "v \<noteq> []" using s by auto
  have utc: "Date_UTC (isoYear v) (isoMonth v - 1) (isoDay v) =
      Time (MakeDate (MakeDay (isoYear v) (isoMonth v - 1) (isoDay v)) 0)"
    using v y isoYear_range [OF s] by (intro Date_UTC_valid) simp_all
  have "parseDateSafe dateParse v =
      Some (Time (MakeDate (MakeDay (isoYear v) (isoMonth v - 1) (isoDay v)) 0))"
    by (simp add: parseDateSafe_def ne s isoDateShape_split utc)
  with civil_roundtrip [OF v] show ?thesis by simp
qed

text \<open>\<open>parseAnyDate\<close> returns what the absolute path returns, when it returns a date.\<close>

lemma parseAnyDate_prefers_absolute:
  "parseDateSafe dateParse v = Some d \<Longrightarrow> parseAnyDate dateParse now v = Some d"
  by (simp add: parseAnyDate_def)

subsection \<open>Setters that subtract\<close>

lemma time_parts:
  "MakeDate (Day t) (MakeTime (HourFromTime t) (MinFromTime t) (SecFromTime t) (msFromTime t)) = t"
proof -
  have s: "t = 1000 * (t div 1000) + t mod 1000" by simp
  have m: "t div 1000 = 60 * (t div 60000) + (t div 1000) mod 60"
    using mult_div_mod_eq [of 60 "t div 1000"] zdiv_zmult2_eq [of 60 t 1000] by simp
  have h: "t div 60000 = 60 * (t div 3600000) + (t div 60000) mod 60"
    using mult_div_mod_eq [of 60 "t div 60000"] zdiv_zmult2_eq [of 60 t 60000] by simp
  have d: "t div 3600000 = 24 * (t div 86400000) + (t div 3600000) mod 24"
    using mult_div_mod_eq [of 24 "t div 3600000"] zdiv_zmult2_eq [of 24 t 3600000] by simp
  show ?thesis
    unfolding MakeDate_def MakeTime_def Day_def HourFromTime_def MinFromTime_def SecFromTime_def
      msFromTime_def msPerDay_def msPerHour_def msPerMinute_def msPerSecond_def
    using s m h d by linarith
qed

lemma setUTCMinutes_minus:
  "setUTCMinutes (Time t) (numMinus (getUTCMinutes (Time t)) n) = TimeClip (t - n * msPerMinute)"
proof -
  have "MakeDate (Day t) (MakeTime (HourFromTime t) (MinFromTime t - n) (SecFromTime t)
          (msFromTime t)) = t - n * msPerMinute"
    using time_parts [of t] by (simp add: MakeDate_def MakeTime_def algebra_simps)
  then show ?thesis by simp
qed

lemma setUTCHours_minus:
  "setUTCHours (Time t) (numMinus (getUTCHours (Time t)) n) = TimeClip (t - n * msPerHour)"
proof -
  have "MakeDate (Day t) (MakeTime (HourFromTime t - n) (MinFromTime t) (SecFromTime t)
          (msFromTime t)) = t - n * msPerHour"
    using time_parts [of t] by (simp add: MakeDate_def MakeTime_def algebra_simps)
  then show ?thesis by simp
qed


lemma daysBeforeMonth_leap: "daysBeforeMonth mn 0 \<le> daysBeforeMonth mn l' \<and>
    daysBeforeMonth mn l' \<le> daysBeforeMonth mn 0 + 1" if "l' = 0 \<or> l' = 1"
  using that by (auto simp: daysBeforeMonth_def)

lemma daysBeforeMonth_step:
  "1 \<le> r \<Longrightarrow> r \<le> 11 \<Longrightarrow> daysBeforeMonth (r - 1) l \<le> daysBeforeMonth r l" if "l = 0 \<or> l = 1"
proof -
  assume r: "1 \<le> r" "r \<le> 11"
  then have "r = 1 \<or> r = 2 \<or> r = 3 \<or> r = 4 \<or> r = 5 \<or> r = 6 \<or> r = 7 \<or> r = 8 \<or> r = 9 \<or> r = 10 \<or>
    r = 11" by arith
  then show ?thesis using that by (elim disjE) (simp_all add: daysBeforeMonth_def)
qed

lemma MakeDay_month_step: "MakeDay y (m - 1) d \<le> MakeDay y m d"
proof -
  have dv: "m div 12 = (m - 1) div 12 + (if m mod 12 = 0 then 1 else 0)"
    using div_succ [of 12 "m - 1"] by simp
  have e1: "m - 1 = 12 * ((m - 1) div 12) + (m - 1) mod 12" by simp
  have e2: "m = 12 * (m div 12) + m mod 12" by simp
  have r: "0 \<le> m mod 12" "m mod 12 < 12" by simp_all
  show ?thesis
  proof (cases "m mod 12 = 0")
    case True
    then have q: "(m - 1) div 12 = m div 12 - 1" using dv by simp
    then have md: "(m - 1) mod 12 = 11" using e1 e2 True by linarith
    define ym where "ym = y + m div 12 - 1"
    have "MakeDay y (m - 1) d =
        DayFromYear ym + (334 + (if DaysInYear ym = 366 then 1 else 0)) + d - 1"
      by (simp add: MakeDay_def Let_def q md ym_def daysBeforeMonth_def algebra_simps)
    moreover have "MakeDay y m d = DayFromYear (ym + 1) + d - 1"
      by (simp add: MakeDay_def Let_def True ym_def daysBeforeMonth_def)
    moreover have "DayFromYear (ym + 1) = DayFromYear ym + DaysInYear ym"
      by (rule DayFromYear_Suc)
    ultimately show ?thesis using DaysInYear_bounds [of ym] by auto
  next
    case False
    then have q: "(m - 1) div 12 = m div 12" using dv by simp
    then have md: "(m - 1) mod 12 = m mod 12 - 1" using e1 e2 by linarith
    have st: "daysBeforeMonth (m mod 12 - 1) l \<le> daysBeforeMonth (m mod 12) l"
      if "l = 0 \<or> l = 1" for l
      using that False r by (intro daysBeforeMonth_step) simp_all
    show ?thesis
      using st [of 0] st [of 1] by (simp add: MakeDay_def Let_def q md)
  qed
qed

lemma MakeDay_month_mono: "0 \<le> n \<Longrightarrow> MakeDay y (m - n) d \<le> MakeDay y m d"
proof (induction n rule: int_ge_induct)
  case base
  then show ?case by simp
next
  case (step i)
  have "MakeDay y (m - (i + 1)) d \<le> MakeDay y (m - i) d"
    using MakeDay_month_step [of y "m - i" d] by (simp add: algebra_simps)
  with step show ?case by simp
qed

lemma MakeDay_year_step: "MakeDay (y - 1) m d \<le> MakeDay y m d"
proof -
  define ym where "ym = y - 1 + m div 12"
  define l' :: int where "l' = (if DaysInYear ym = 366 then 1 else 0)"
  define l :: int where "l = (if DaysInYear (ym + 1) = 366 then 1 else 0)"
  have a: "MakeDay (y - 1) m d = DayFromYear ym + daysBeforeMonth (m mod 12) l' + d - 1"
    by (simp add: MakeDay_def Let_def ym_def l'_def)
  have b: "MakeDay y m d = DayFromYear (ym + 1) + daysBeforeMonth (m mod 12) l + d - 1"
    by (simp add: MakeDay_def Let_def ym_def l_def algebra_simps)
  have "daysBeforeMonth (m mod 12) l' \<le> daysBeforeMonth (m mod 12) 0 + 1"
    using daysBeforeMonth_leap [of l' "m mod 12"] by (simp add: l'_def)
  moreover have "daysBeforeMonth (m mod 12) 0 \<le> daysBeforeMonth (m mod 12) l"
    using daysBeforeMonth_leap [of l "m mod 12"] by (simp add: l_def)
  ultimately show ?thesis
    unfolding a b using DayFromYear_Suc [of ym] DaysInYear_bounds [of ym] by linarith
qed

lemma MakeDay_year_mono: "0 \<le> n \<Longrightarrow> MakeDay (y - n) m d \<le> MakeDay y m d"
proof (induction n rule: int_ge_induct)
  case base
  then show ?case by simp
next
  case (step i)
  have "MakeDay (y - (i + 1)) m d \<le> MakeDay (y - i) m d"
    using MakeDay_year_step [of "y - i" m d] by (simp add: algebra_simps)
  with step show ?case by simp
qed

lemma MakeDay_own_date: "MakeDay (YearFromTime t) (MonthFromTime t) (DateFromTime t) = Day t"
  by (simp add: MakeDay_own_month)

lemma TimeClip_Time: "TimeClip x = Time u \<Longrightarrow> u = x"
  by (simp add: TimeClip_def split: if_splits)

lemma MakeDate_mono: "a \<le> b \<Longrightarrow> MakeDate a w \<le> MakeDate b w"
  by (simp add: MakeDate_def msPerDay_def)

text \<open>The \<open>switch\<close> never moves a valid date forward when the quantity is not negative.\<close>

lemma subtractUnits_past:
  assumes n: "0 \<le> n" and r: "subtractUnits kind (Time t) n = Time u"
  shows "u \<le> t"
proof (cases kind)
  case Min
  with r have "TimeClip (t - n * msPerMinute) = Time u"
    using setUTCMinutes_minus [of t n] by simp
  from TimeClip_Time [OF this] n show ?thesis by (simp add: msPerMinute_def)
next
  case Hr
  with r have "TimeClip (t - n * msPerHour) = Time u"
    using setUTCHours_minus [of t n] by simp
  from TimeClip_Time [OF this] n show ?thesis by (simp add: msPerHour_def)
next
  case Day_kind
  with r have "TimeClip (t - n * msPerDay) = Time u"
    using setUTCDate_minus [of t n] by simp
  from TimeClip_Time [OF this] n show ?thesis by (simp add: msPerDay_def)
next
  case Week
  with r have "TimeClip (t - (n * 7) * msPerDay) = Time u"
    using setUTCDate_minus [of t "n * 7"] by simp
  from TimeClip_Time [OF this] n show ?thesis by (simp add: msPerDay_def)
next
  case Month
  with r have "TimeClip (MakeDate (MakeDay (YearFromTime t) (MonthFromTime t - n)
      (DateFromTime t)) (TimeWithinDay t)) = Time u" by simp
  from TimeClip_Time [OF this]
  have "u \<le> MakeDate (MakeDay (YearFromTime t) (MonthFromTime t) (DateFromTime t))
      (TimeWithinDay t)"
    using MakeDay_month_mono [OF n, of "YearFromTime t" "MonthFromTime t" "DateFromTime t"]
    by (simp add: MakeDate_mono)
  then show ?thesis by (simp add: MakeDay_own_date Day_TimeWithinDay)
next
  case Year
  with r have "TimeClip (MakeDate (MakeDay (YearFromTime t - n) (MonthFromTime t)
      (DateFromTime t)) (TimeWithinDay t)) = Time u" by simp
  from TimeClip_Time [OF this]
  have "u \<le> MakeDate (MakeDay (YearFromTime t) (MonthFromTime t) (DateFromTime t))
      (TimeWithinDay t)"
    using MakeDay_year_mono [OF n, of "YearFromTime t" "MonthFromTime t" "DateFromTime t"]
    by (simp add: MakeDate_mono)
  then show ?thesis by (simp add: MakeDay_own_date Day_TimeWithinDay)
qed


lemma splitStr_not_Nil: "splitStr ch s \<noteq> []"
  by (induction s) (auto split: list.splits)

lemma joinStr_Cons: "joinStr sep ((c # p) # ps) = c # joinStr sep (p # ps)"
  by (cases ps) simp_all

lemma joinStr_Nil_Cons: "ps \<noteq> [] \<Longrightarrow> joinStr sep ([] # ps) = sep @ joinStr sep ps"
  by (cases ps) simp_all

text \<open>\<open>s.split(ch).join(' ')\<close> replaces every occurrence of \<open>ch\<close> by a space.\<close>

lemma join_split: "joinStr [32] (splitStr ch s) = map (\<lambda>c. if c = ch then 32 else c) s"
proof (induction s)
  case Nil
  then show ?case by simp
next
  case (Cons c cs)
  show ?case
  proof (cases "c = ch")
    case True
    then show ?thesis using Cons splitStr_not_Nil [of ch cs] by (simp add: joinStr_Nil_Cons)
  next
    case False
    obtain p ps where sp: "splitStr ch cs = p # ps"
      using splitStr_not_Nil [of ch cs] by (cases "splitStr ch cs") auto
    with False Cons show ?thesis by (simp add: joinStr_Cons)
  qed
qed

lemma set_replaceDoubleSpace: "set (replaceDoubleSpace s) \<subseteq> set s"
  by (induction s rule: replaceDoubleSpace.induct) auto

lemma set_collapseSpaces: "set (collapseSpaces s) \<subseteq> set s"
proof (induction s rule: collapseSpaces.induct)
  case (1 s)
  show ?case
  proof (cases "hasDoubleSpace s")
    case True
    with 1 set_replaceDoubleSpace [of s] show ?thesis
      by (auto simp: collapseSpaces.simps [of s])
  next
    case False
    then show ?thesis by (simp add: collapseSpaces.simps [of s])
  qed
qed

lemma set_numUnitSpacingFrom: "set (numUnitSpacingFrom p s) \<subseteq> insert 32 (set s)"
  by (induction s arbitrary: p) auto

lemma set_trim: "set (trim s) \<subseteq> set s"
proof -
  have "set (dropWhile isWhiteSpace (rev (dropWhile isWhiteSpace s))) \<subseteq> set s"
    by (auto dest!: set_dropWhileD)
  then show ?thesis by (simp add: trim_def)
qed

lemma no_minus_toLowerCase: "45 \<notin> set v \<Longrightarrow> 45 \<notin> set (toLowerCase v)"
  by (auto simp: toLowerCase_def)

lemma no_minus_normalizePhrase:
  assumes "45 \<notin> set v"
  shows "45 \<notin> set (normalizePhrase v)"
proof -
  have a: "45 \<notin> set (trim (toLowerCase v))"
    using assms no_minus_toLowerCase set_trim by blast
  have b: "45 \<notin> set (foldl (\<lambda>s ch. joinStr [32] (splitStr ch s)) (trim (toLowerCase v)) junk)"
    using a by (auto simp: junk_def join_split)
  have c: "45 \<notin> set (collapseSpaces
      (foldl (\<lambda>s ch. joinStr [32] (splitStr ch s)) (trim (toLowerCase v)) junk))"
    using b set_collapseSpaces by blast
  show ?thesis
    unfolding normalizePhrase_def numUnitSpacing_def
    using c set_numUnitSpacingFrom by fastforce
qed

lemma set_splitStr: "p \<in> set (splitStr ch s) \<Longrightarrow> set p \<subseteq> set s"
proof (induction s arbitrary: p)
  case Nil
  then show ?case by simp
next
  case (Cons c cs)
  obtain q qs where sp: "splitStr ch cs = q # qs"
    using splitStr_not_Nil [of ch cs] by (cases "splitStr ch cs") auto
  show ?case
  proof (cases "c = ch")
    case True
    with Cons show ?thesis by auto
  next
    case False
    with Cons.prems sp have "p = c # q \<or> p \<in> set qs" by simp
    then show ?thesis
    proof
      assume "p = c # q"
      moreover have "set q \<subseteq> set cs" using Cons.IH [of q] sp by simp
      ultimately show ?thesis by auto
    next
      assume "p \<in> set qs"
      then have "set p \<subseteq> set cs" using Cons.IH [of p] sp by simp
      then show ?thesis by auto
    qed
  qed
qed

lemma digits_nonneg:
  "\<forall>c \<in> set z. isDigit c \<Longrightarrow> 0 \<le> acc \<Longrightarrow> 0 \<le> foldl (\<lambda>acc c. 10 * acc + (int c - 48)) acc z"
  by (induction z arbitrary: acc) (auto simp: isDigit_def)

lemma parseInt_nonneg:
  assumes "parseInt q = Some k" and "45 \<notin> set q"
  shows "0 \<le> k"
proof -
  define s where "s = dropWhile isWhiteSpace q"
  have "set s \<subseteq> set q" unfolding s_def by (meson set_dropWhileD subsetI)
  with assms(2) have hd: "case s of [] \<Rightarrow> True | c # _ \<Rightarrow> c \<noteq> 45"
    by (cases s) auto
  define r where "r = (case s of c # cs \<Rightarrow> if c = 45 \<or> c = 43 then cs else s | [] \<Rightarrow> s)"
  have "0 \<le> digitsValue (takeWhile isDigit r)"
    unfolding digitsValue_def by (rule digits_nonneg) (auto dest: set_takeWhileD)
  moreover have "k = digitsValue (takeWhile isDigit r)"
    using assms(1) hd unfolding parseInt_def Let_def s_def [symmetric] r_def [symmetric]
    by (cases s) (auto split: if_splits)
  ultimately show ?thesis by simp
qed

lemma subtractUnits_NaN: "subtractUnits kind NaN n = NaN"
  by (cases kind) simp_all

lemma TimeClip_le: "TimeClip now = Time t \<Longrightarrow> t = now"
  by (simp add: TimeClip_def split: if_splits)

lemma parseTokens_past:
  assumes r: "parseTokens parts now = Some (Time u)"
    and nm: "\<forall>p \<in> set parts. 45 \<notin> set p"
  shows "u \<le> now"
proof -
  define rest where "rest = (case parts of
      p # ps \<Rightarrow> if p \<in> set [js ''about'', js ''approx'', js ''approximately''] then ps else parts
    | [] \<Rightarrow> parts)"
  have sub: "set rest \<subseteq> set parts"
    by (auto simp: rest_def split: list.splits if_splits)
  from r obtain q unit tl' k kind where
    rest: "rest = q # unit # tl'" and k: "parseInt q = Some k" and
    res: "subtractUnits kind (TimeClip now) k = Time u"
    unfolding parseTokens_def Let_def rest_def [symmetric]
    by (auto simp: isFinite_def split: list.splits option.splits if_splits)
  have "q \<in> set parts" using sub rest by auto
  with nm have "45 \<notin> set q" by blast
  with k have k0: "0 \<le> k" by (rule parseInt_nonneg)
  obtain t where t: "TimeClip now = Time t"
    using res subtractUnits_NaN [of kind k] by (cases "TimeClip now") auto
  then have "t = now" by (rule TimeClip_le)
  with subtractUnits_past [OF k0, of kind t u] res t show ?thesis by simp
qed

text \<open>
  A phrase without a minus sign that the relative-phrase path turns into a valid date
  gives a date that is not after \<open>now\<close>.
\<close>

lemma parseRelative_past:
  assumes r: "parseRelativeLinkedInDate v now = Some (Time u)" and nm: "45 \<notin> set v"
  shows "u \<le> now"
proof -
  define s where "s = normalizePhrase v"
  have ns: "45 \<notin> set s" unfolding s_def using nm by (rule no_minus_normalizePhrase)
  consider (just) "s = js ''just now''" | (yest) "s \<noteq> js ''just now''" "s = js ''yesterday''"
    | (tok) "s \<noteq> js ''just now''" "s \<noteq> js ''yesterday''" by blast
  then show ?thesis
  proof cases
    case just
    with r have "TimeClip now = Time u"
      by (simp add: parseRelativeLinkedInDate_def s_def [symmetric] split: if_splits)
    from TimeClip_le [OF this] show ?thesis by simp
  next
    case yest
    with r have y: "setUTCDate (TimeClip now) (numMinus (getUTCDate (TimeClip now)) 1) = Time u"
      by (simp add: parseRelativeLinkedInDate_def s_def [symmetric] split: if_splits)
    then obtain t where t: "TimeClip now = Time t" by (cases "TimeClip now") auto
    then have tn: "t = now" by (rule TimeClip_le)
    from y t have "TimeClip (t - 1 * msPerDay) = Time u"
      using setUTCDate_minus [of t 1] by simp
    from TimeClip_Time [OF this] tn show ?thesis by (simp add: msPerDay_def)
  next
    case tok
    with r have "parseTokens (splitStr 32 s) now = Some (Time u)"
      by (simp add: parseRelativeLinkedInDate_def s_def [symmetric] split: if_splits)
    moreover have "\<forall>p \<in> set (splitStr 32 s). 45 \<notin> set p"
      using ns set_splitStr by blast
    ultimately show ?thesis by (rule parseTokens_past)
  qed
qed


text \<open>
  A quantity so large that the new time value leaves the range of \<open>TimeClip\<close> gives an
  invalid \<open>Date\<close>, which is not \<open>null\<close>.
\<close>

lemma parseRelative_invalid_date:
  "parseRelativeLinkedInDate (js ''99999999999 days'') 1705276800000 = Some NaN"
proof -
  have "parseRelativeLinkedInDate (js ''99999999999 days'') 1705276800000 =
        Some (setUTCDate (Time 1705276800000)
          (numMinus (getUTCDate (Time 1705276800000)) 99999999999))"
    by (simp add: parse_eval string_eval TimeClip_def
        del: setUTCDate.simps numMinus.simps getUTCDate.simps)
  then show ?thesis
    by (simp only: setUTCDate_minus) (simp add: TimeClip_def msPerDay_def)
qed


subsection \<open>The normalized phrase and its tokens\<close>

lemma collapseSpaces_no_double: "\<not> hasDoubleSpace (collapseSpaces s)"
proof (induction s rule: collapseSpaces.induct)
  case (1 s)
  then show ?case by (cases "hasDoubleSpace s") (simp_all add: collapseSpaces.simps [of s])
qed

lemma numUnitSpacingFrom_no_double:
  "\<not> hasDoubleSpace (c0 # s) \<Longrightarrow> \<not> hasDoubleSpace (c0 # numUnitSpacingFrom (Some c0) s)"
proof (induction s arbitrary: c0)
  case Nil
  then show ?case by simp
next
  case (Cons c cs)
  from Cons.prems have a: "\<not> (c0 = 32 \<and> c = 32)" and b: "\<not> hasDoubleSpace (c # cs)" by simp_all
  from Cons.IH [OF b] have ih: "\<not> hasDoubleSpace (c # numUnitSpacingFrom (Some c) cs)" .
  show ?case using a ih by (auto simp: isDigit_def isLetter_def)
qed

lemma numUnitSpacing_no_double: "\<not> hasDoubleSpace s \<Longrightarrow> \<not> hasDoubleSpace (numUnitSpacing s)"
proof (cases s)
  case Nil
  then show ?thesis by (simp add: numUnitSpacing_def)
next
  case (Cons c cs)
  assume "\<not> hasDoubleSpace s"
  with Cons numUnitSpacingFrom_no_double [of c cs] show ?thesis
    by (simp add: numUnitSpacing_def)
qed

lemma normalizePhrase_no_double: "\<not> hasDoubleSpace (normalizePhrase v)"
  unfolding normalizePhrase_def
  by (rule numUnitSpacing_no_double) (rule collapseSpaces_no_double)

text \<open>The loop over \<open>junk\<close> replaces every junk character by a space.\<close>

lemma junk_replaced:
  "foldl (\<lambda>s ch. joinStr [32] (splitStr ch s)) s junk =
   map (\<lambda>c. if c = 183 \<or> c = 8226 \<or> c = 8211 \<or> c = 8212 \<or> c = 46 then 32 else c) s"
  by (induction s) (simp_all add: junk_def join_split)

lemma set_junk_replaced:
  "set (foldl (\<lambda>s ch. joinStr [32] (splitStr ch s)) s junk) \<inter> set junk = {}"
  unfolding junk_replaced by (auto simp: junk_def)

lemma set_junk_replaced_sub:
  "set (foldl (\<lambda>s ch. joinStr [32] (splitStr ch s)) s junk) \<subseteq> insert 32 (set s)"
  unfolding junk_replaced by auto

lemma set_numUnitSpacing: "set (numUnitSpacing s) \<subseteq> insert 32 (set s)"
  unfolding numUnitSpacing_def by (rule set_numUnitSpacingFrom)

lemma normalizePhrase_no_junk: "set (normalizePhrase v) \<inter> set junk = {}"
proof -
  let ?a = "foldl (\<lambda>s ch. joinStr [32] (splitStr ch s)) (trim (toLowerCase v)) junk"
  have "set (normalizePhrase v) \<subseteq> insert 32 (set ?a)"
    unfolding normalizePhrase_def
    using set_numUnitSpacing [of "collapseSpaces ?a"] set_collapseSpaces [of ?a] by blast
  moreover have "32 \<notin> set junk" by (simp add: junk_def)
  ultimately show ?thesis using set_junk_replaced [of "trim (toLowerCase v)"] by blast
qed

lemma set_join_split: "set (joinStr [32] (splitStr ch s)) \<subseteq> insert 32 (set s)"
  by (auto simp: join_split)

lemma normalizePhrase_lower: "c \<in> set (normalizePhrase v) \<Longrightarrow> \<not> (65 \<le> c \<and> c \<le> 90)"
proof -
  assume c: "c \<in> set (normalizePhrase v)"
  have low: "\<forall>x \<in> set (toLowerCase v). \<not> (65 \<le> x \<and> x \<le> 90)"
    by (auto simp: toLowerCase_def)
  let ?t = "trim (toLowerCase v)"
  have t: "set ?t \<subseteq> set (toLowerCase v)" by (rule set_trim)
  have j: "set (foldl (\<lambda>s ch. joinStr [32] (splitStr ch s)) ?t junk) \<subseteq> insert 32 (set ?t)"
    by (rule set_junk_replaced_sub)
  let ?a = "foldl (\<lambda>s ch. joinStr [32] (splitStr ch s)) ?t junk"
  have "set (normalizePhrase v) \<subseteq> insert 32 (set ?a)"
    unfolding normalizePhrase_def
    using set_numUnitSpacing [of "collapseSpaces ?a"] set_collapseSpaces [of ?a] by blast
  with c j t have "c = 32 \<or> c \<in> set (toLowerCase v)" by blast
  with low show ?thesis by auto
qed

lemma parseTokens_append:
  assumes "parseTokens parts now \<noteq> None"
  shows "parseTokens (parts @ extra) now = parseTokens parts now"
proof -
  define pre where "pre = set [js ''about'', js ''approx'', js ''approximately'']"
  define rest where "rest = (case parts of p # ps \<Rightarrow> if p \<in> pre then ps else parts | [] \<Rightarrow> parts)"
  from assms obtain q unit tl' where rest: "rest = q # unit # tl'"
    unfolding parseTokens_def Let_def pre_def [symmetric] rest_def [symmetric]
    by (auto split: list.splits option.splits if_splits)
  then have ne: "parts \<noteq> []" by (auto simp: rest_def)
  have "(case parts @ extra of p # ps \<Rightarrow> if p \<in> pre then ps else parts @ extra | [] \<Rightarrow> parts @ extra)
      = rest @ extra"
    using ne by (cases parts) (auto simp: rest_def)
  then show ?thesis
    unfolding parseTokens_def Let_def pre_def [symmetric] rest_def [symmetric]
    by (simp add: rest)
qed


subsection \<open>The sibling parser on the phrases of the claims\<close>

lemmas sibling_eval = normalizeRelative_def replaceDots_def isWordChar_def returnsNow_def

lemma sibling_now: "returnsNow (js ''now'') \<and> returnsNow (js ''Just now'')"
  by (simp add: sibling_eval string_eval)

lemma sibling_strips:
  "normalizeRelative (js ''edited 3 days'') = js ''3 days'' \<and>
   normalizeRelative (js ''ago 3 days'') = js ''3 days'' \<and>
   normalizeRelative (js ''3 days ago '' @ [8226] @ js '' Edited'') = js ''3 days''"
  by (simp add: sibling_eval string_eval)

subsection \<open>The scenario of the specification\<close>

text \<open>
  The example rows are what \<open>parseAnyDate\<close> makes of their raw dates at
  \<open>now = 2024-01-15T00:00:00Z\<close>, and the pipeline orders and filters them as the
  scenario says.
\<close>

lemma example_dates:
  "parseAnyDate dateParse 1705276800000 (js ''2024-01-10'') = dateObj postT1 \<and>
   parseDateSafe (\<lambda>v. NaN) (js ''3 days ago'') = None \<and>
   parseAnyDate (\<lambda>v. NaN) 1705276800000 (js ''3 days ago'') = dateObj postT2 \<and>
   parseAnyDate (\<lambda>v. NaN) 1705276800000 (js ''banana'') = dateObj postNoDate"
proof -
  have a: "parseDateSafe dateParse (js ''2024-01-10'') = Some (Time 1704844800000)"
    by (simp add: parseDateSafe_def js_def isDigit_def digitsValue_def date_eval)
  have b: "parseDateSafe (\<lambda>v. NaN) (js ''3 days ago'') = None"
    by (simp add: parseDateSafe_def js_def isDigit_def)
  have "parseRelativeLinkedInDate (js ''3 days ago'') 1705276800000 =
        Some (setUTCDate (Time 1705276800000) (numMinus (getUTCDate (Time 1705276800000)) 3))"
    by (simp add: parse_eval string_eval TimeClip_def
        del: setUTCDate.simps numMinus.simps getUTCDate.simps)
  then have c: "parseRelativeLinkedInDate (js ''3 days ago'') 1705276800000 =
        Some (Time 1705017600000)"
    by (simp only: setUTCDate_minus) (simp add: TimeClip_def msPerDay_def)
  have d: "parseDateSafe (\<lambda>v. NaN) (js ''banana'') = None"
    by (simp add: parseDateSafe_def js_def)
  have e: "parseRelativeLinkedInDate (js ''banana'') 1705276800000 = None"
    by (simp add: parse_eval string_eval)
  show ?thesis by (simp add: parseAnyDate_def a b c d e post_eval)
qed

lemma example_pipeline:
  "filtered codeUnitCompare 1705276800000 [postT1, postT2] [] [] 7 [] = [postT2, postT1] \<and>
   filtered codeUnitCompare 1705276800000 [postT1, postT2] [] [js ''x''] 7 [] = [postT1]"
  by (simp add: filtered_def filterStages_def authorStage_def tagStage_def periodStage_def
      searchStage_def cutoffDate_eq TimeClip_def msPerDay_def sortBy_def sortCompare_def
      timeOrZero_def trim_def post_eval js_def)

text \<open>
  \<open>trim\<close> runs before the junk characters are replaced, so a period at the end leaves a
  space behind and the phrase is no longer one of the two literal phrases.
\<close>

lemma parseRelative_trailing_period:
  "parseRelativeLinkedInDate (js ''just now.'') T = None"
  by (simp add: parse_eval string_eval)


subsection \<open>The limit stage on a negative count\<close>

text \<open>
  Below the sentinel, \<open>slice(0, maxResults)\<close> counts from the end of the list: the last
  \<open>-maxResults\<close> posts are dropped.
\<close>

lemma limited_negative:
  assumes m: "maxResults < -1"
  shows "limited maxResults xs = take (length xs - nat (- maxResults)) xs"
proof -
  have "nat (max (int (length xs) + maxResults) 0) = length xs - nat (- maxResults)"
    using m by (simp add: max_def) linarith
  with m show ?thesis by (simp add: limited_def slice0_def Let_def)
qed

lemma limited_negative_example: "limited (-2) [postT1, postT2, postNoDate] = [postT1]"
  by (simp add: limited_negative)

section \<open>The claims\<close>

subsection \<open>The filter stages\<close>

text \<open>
  C10: the posts that survive the filter stages (author, tag, period, free text), before
  sorting, stand in the output in the same relative order as in the input: the output of
  each stage, and of their composition, is a subsequence of its input.
\<close>

theorem filterStages_preserve_order:
  "subseq (authorStage authors rows) rows \<and>
   subseq (tagStage tgs rows) rows \<and>
   subseq (periodStage now period rows) rows \<and>
   subseq (searchStage search rows) rows \<and>
   subseq (filterStages now rows authors tgs period search) rows"
proof -
  have a: "subseq (authorStage authors xs) xs" for xs
    by (simp add: authorStage_def)
  have t: "subseq (tagStage tgs xs) xs" for xs
    by (simp add: tagStage_def)
  have p: "subseq (periodStage now period xs) xs" for xs
    by (simp add: periodStage_def)
  have s: "subseq (searchStage search xs) xs" for xs
    by (simp add: searchStage_def Let_def)
  have "subseq (filterStages now rows authors tgs period search) rows"
    unfolding filterStages_def
    by (meson a t p s subseq_order.trans)
  with a t p s show ?thesis by blast
qed

text \<open>
  C7: the output of the filter stages is a sub-multiset (hence a subset) of the input
  list, so no post is added or changed; and with no author selected, no tag selected,
  the period at the sentinel \<open>-1\<close> and a blank query, the output is the input list.
\<close>

theorem filterStages_narrowing:
  "mset (filterStages now rows authors tgs period search) \<subseteq># mset rows \<and>
   set (filterStages now rows authors tgs period search) \<subseteq> set rows \<and>
   (authors = [] \<and> tgs = [] \<and> period = -1 \<and> trim search = [] \<longrightarrow>
      filterStages now rows authors tgs period search = rows)"
proof -
  have a: "mset (authorStage authors xs) \<subseteq># mset xs" for xs
    by (simp add: authorStage_def)
  have t: "mset (tagStage tgs xs) \<subseteq># mset xs" for xs
    by (simp add: tagStage_def)
  have p: "mset (periodStage now period xs) \<subseteq># mset xs" for xs
    by (simp add: periodStage_def)
  have s: "mset (searchStage search xs) \<subseteq># mset xs" for xs
    by (simp add: searchStage_def Let_def)
  have m: "mset (filterStages now rows authors tgs period search) \<subseteq># mset rows"
    unfolding filterStages_def
    by (meson a t p s subset_mset.order_trans)
  then have "set (filterStages now rows authors tgs period search) \<subseteq> set rows"
    using set_mset_mono [of "mset (filterStages now rows authors tgs period search)" "mset rows"]
    by simp
  moreover have "authors = [] \<and> tgs = [] \<and> period = -1 \<and> trim search = [] \<longrightarrow>
      filterStages now rows authors tgs period search = rows"
    by (simp add: filterStages_def authorStage_def tagStage_def periodStage_def searchStage_def)
  ultimately show ?thesis using m by blast
qed

theorem filterStages_narrowing_witness:
  "filterStages 1705276800000 [postT1, postT2] [] [] (-1) (js '' '') = [postT1, postT2] \<and>
   set (filterStages 1705276800000 [postT1, postT2] [js ''B''] [] 7 []) \<subseteq> set [postT1, postT2]"
  using filterStages_narrowing [of 1705276800000 "[postT1, postT2]" "[]" "[]" "-1" "js '' ''"]
    filterStages_narrowing [of 1705276800000 "[postT1, postT2]" "[js ''B'']" "[]" 7 "[]"]
  by (simp add: string_eval)

subsection \<open>The period stage\<close>

text \<open>
  C4: the period of a filter configuration is a positive number of days or the sentinel
  \<open>-1\<close>. When it is not the sentinel the stage is active: it keeps exactly the posts
  whose \<open>dateObj\<close> is present and at or after \<open>now\<close> minus \<open>period\<close> days (the cutoff
  being a valid time value), and it keeps no post without \<open>dateObj\<close>. When it is the
  sentinel the stage is not active and every post, dated or not, passes.
\<close>

theorem periodStage_window:
  assumes "0 < period \<or> period = -1"
  shows "(period \<noteq> -1 \<and> \<bar>now - period * msPerDay\<bar> \<le> 8640000000000000 \<longrightarrow>
           periodStage now period rows =
             filter (withinWindow (now - period * msPerDay)) rows) \<and>
         (period \<noteq> -1 \<longrightarrow> (\<forall>r \<in> set (periodStage now period rows). dateObj r \<noteq> None)) \<and>
         (period = -1 \<longrightarrow> periodStage now period rows = rows)"
proof -
  have active: "periodStage now period rows =
      filter (withinWindow (now - period * msPerDay)) rows"
    if "period \<noteq> -1" and "\<bar>now - period * msPerDay\<bar> \<le> 8640000000000000"
    using that assms by (intro periodStage_active) auto
  have dated: "\<forall>r \<in> set (periodStage now period rows). dateObj r \<noteq> None" if "period \<noteq> -1"
    using that assms by (auto simp: periodStage_def split: option.splits)
  have inactive: "periodStage now period rows = rows" if "period = -1"
    using that by (simp add: periodStage_def)
  from active dated inactive show ?thesis by blast
qed

theorem periodStage_window_witness:
  "periodStage 1705276800000 7 [postT1, postNoDate, post1969, postT2] = [postT1, postT2] \<and>
   periodStage 1705276800000 (-1) [postT1, postNoDate] = [postT1, postNoDate]"
  using periodStage_window [of 7 1705276800000 "[postT1, postNoDate, post1969, postT2]"]
    periodStage_window [of "-1" 1705276800000 "[postT1, postNoDate]"]
  by (simp add: msPerDay_def withinWindow_def post_eval)

subsection \<open>The pipeline and the clock\<close>

text \<open>
  C9, as stated, fails: \<open>filtered\<close> reads the clock (\<open>new Date()\<close>) in the period stage.
  The same rows and the same configuration give one post at
  \<open>2024-01-15T00:00:00Z\<close> and none five days later.
\<close>

theorem filtered_clock_counterexample:
  "filtered codeUnitCompare 1705276800000 [postT1] [] [] 7 [] = [postT1] \<and>
   filtered codeUnitCompare 1705708800000 [postT1] [] [] 7 [] = []"
  by (simp add: filtered_def filterStages_def authorStage_def tagStage_def periodStage_def
      searchStage_def cutoffDate_eq TimeClip_def msPerDay_def sortBy_def trim_def postT1_def)

text \<open>
  C9, amended: besides its arguments the pipeline has two inputs, the collation of the
  host (\<open>localeCompare\<close>) and the clock read in the period stage. The collation decides
  only the order: under any two collations the output holds the same posts. The clock
  matters only when the period stage is active: with a period that is not positive two
  readings give the same output; with a positive period and two readings
  \<open>now1 \<le> now2\<close> (both cutoffs valid) the later output holds no post that the earlier
  one does not hold, and the two outputs are the same exactly when every post of the
  earlier output is still within the window of the later reading.
\<close>

theorem filtered_clock_dependence:
  "mset (filtered localeCompare now1 rows authors tgs period search) =
   mset (filtered localeCompare' now1 rows authors tgs period search) \<and>
   (period \<le> 0 \<longrightarrow>
      filtered localeCompare now1 rows authors tgs period search =
      filtered localeCompare now2 rows authors tgs period search) \<and>
   (0 < period \<and> now1 \<le> now2 \<and> \<bar>now1 - period * msPerDay\<bar> \<le> 8640000000000000 \<and>
    \<bar>now2 - period * msPerDay\<bar> \<le> 8640000000000000 \<longrightarrow>
      mset (filtered localeCompare now2 rows authors tgs period search) \<subseteq>#
      mset (filtered localeCompare now1 rows authors tgs period search) \<and>
      (filtered localeCompare now1 rows authors tgs period search =
       filtered localeCompare now2 rows authors tgs period search \<longleftrightarrow>
       (\<forall>r \<in> set (filtered localeCompare now1 rows authors tgs period search).
          withinWindow (now2 - period * msPerDay) r)))"
proof -
  let ?S1 = "filterStages now1 rows authors tgs period search"
  let ?S2 = "filterStages now2 rows authors tgs period search"
  let ?w = "withinWindow (now2 - period * msPerDay)"
  have coll: "mset (filtered localeCompare now1 rows authors tgs period search) =
      mset (filtered localeCompare' now1 rows authors tgs period search)"
    by (simp add: filtered_def sortBy_mset)
  have off: "filtered localeCompare now1 rows authors tgs period search =
      filtered localeCompare now2 rows authors tgs period search" if "period \<le> 0"
    using that by (simp add: filtered_def filterStages_def periodStage_inactive)
  have on: "mset (filtered localeCompare now2 rows authors tgs period search) \<subseteq>#
      mset (filtered localeCompare now1 rows authors tgs period search) \<and>
      (filtered localeCompare now1 rows authors tgs period search =
       filtered localeCompare now2 rows authors tgs period search \<longleftrightarrow>
       (\<forall>r \<in> set (filtered localeCompare now1 rows authors tgs period search). ?w r))"
    if p: "0 < period" and le: "now1 \<le> now2"
      and c1: "\<bar>now1 - period * msPerDay\<bar> \<le> 8640000000000000"
      and c2: "\<bar>now2 - period * msPerDay\<bar> \<le> 8640000000000000"
  proof -
    have later: "?S2 = filter ?w ?S1" by (rule filterStages_later [OF p le c1 c2])
    have sub: "mset (filtered localeCompare now2 rows authors tgs period search) \<subseteq>#
        mset (filtered localeCompare now1 rows authors tgs period search)"
      by (simp add: filtered_def sortBy_mset later)
    have eq: "filtered localeCompare now1 rows authors tgs period search =
        filtered localeCompare now2 rows authors tgs period search"
      if all: "\<forall>r \<in> set (filtered localeCompare now1 rows authors tgs period search). ?w r"
    proof -
      from all have "\<forall>r \<in> set ?S1. ?w r" by (simp add: filtered_def set_sortBy)
      then have "filter ?w ?S1 = ?S1" by (simp add: filter_id_conv)
      then show ?thesis by (simp add: filtered_def later)
    qed
    have all: "\<forall>r \<in> set (filtered localeCompare now1 rows authors tgs period search). ?w r"
      if e: "filtered localeCompare now1 rows authors tgs period search =
        filtered localeCompare now2 rows authors tgs period search"
    proof -
      have "set ?S1 = set (filtered localeCompare now1 rows authors tgs period search)"
        by (simp add: filtered_def set_sortBy)
      also have "\<dots> = set (filtered localeCompare now2 rows authors tgs period search)"
        using e by simp
      also have "\<dots> = set (filter ?w ?S1)"
        by (simp add: filtered_def set_sortBy later)
      finally have "set ?S1 = set (filter ?w ?S1)" .
      then have "\<forall>r \<in> set ?S1. ?w r" by auto
      then show ?thesis by (simp add: filtered_def set_sortBy)
    qed
    from sub eq all show ?thesis by blast
  qed
  from coll off on show ?thesis by blast
qed

theorem filtered_clock_dependence_witness:
  "filtered codeUnitCompare 1705276800000 [postT1, postT2] [] [] (-1) [] =
   filtered codeUnitCompare 1705708800000 [postT1, postT2] [] [] (-1) [] \<and>
   filtered codeUnitCompare 1705276800000 [postT1, postT2] [] [] 7 [] =
   filtered codeUnitCompare 1705363200000 [postT1, postT2] [] [] 7 [] \<and>
   filtered codeUnitCompare 1705276800000 [postT1, postT2] [] [] 7 [] \<noteq>
   filtered codeUnitCompare 1705708800000 [postT1, postT2] [] [] 7 [] \<and>
   mset (filtered codeUnitCompare 1705708800000 [postT1, postT2] [] [] 7 []) \<subseteq>#
   mset (filtered codeUnitCompare 1705276800000 [postT1, postT2] [] [] 7 [])"
proof -
  have f: "filtered codeUnitCompare 1705276800000 [postT1, postT2] [] [] 7 [] = [postT2, postT1]"
    using example_pipeline by simp
  have w1: "withinWindow (1705363200000 - 7 * msPerDay) postT1"
    and w2: "withinWindow (1705363200000 - 7 * msPerDay) postT2"
    and w3: "\<not> withinWindow (1705708800000 - 7 * msPerDay) postT1"
    by (simp_all add: withinWindow_def msPerDay_def post_eval)
  have a: "filtered codeUnitCompare 1705276800000 [postT1, postT2] [] [] (-1) [] =
      filtered codeUnitCompare 1705708800000 [postT1, postT2] [] [] (-1) []"
    using filtered_clock_dependence [of codeUnitCompare 1705276800000 "[postT1, postT2]" "[]"
        "[]" "-1" "[]" codeUnitCompare 1705708800000]
    by simp
  have b: "filtered codeUnitCompare 1705276800000 [postT1, postT2] [] [] 7 [] =
      filtered codeUnitCompare 1705363200000 [postT1, postT2] [] [] 7 []"
    using filtered_clock_dependence [of codeUnitCompare 1705276800000 "[postT1, postT2]" "[]"
        "[]" 7 "[]" codeUnitCompare 1705363200000] w1 w2
    by (simp add: f msPerDay_def)
  have c: "filtered codeUnitCompare 1705276800000 [postT1, postT2] [] [] 7 [] \<noteq>
      filtered codeUnitCompare 1705708800000 [postT1, postT2] [] [] 7 [] \<and>
      mset (filtered codeUnitCompare 1705708800000 [postT1, postT2] [] [] 7 []) \<subseteq>#
      mset (filtered codeUnitCompare 1705276800000 [postT1, postT2] [] [] 7 [])"
    using filtered_clock_dependence [of codeUnitCompare 1705276800000 "[postT1, postT2]" "[]"
        "[]" 7 "[]" codeUnitCompare 1705708800000] w3
    by (simp add: f msPerDay_def)
  from a b c show ?thesis by simp
qed

subsection \<open>The sort comparator\<close>

text \<open>
  C2, as stated, fails: a post without a date does not sort after every dated post. Its
  date key is 0, so it sorts before a post dated before 1970 (here 1969-12-31).
\<close>

theorem sort_dateless_counterexample:
  "sortCompare codeUnitCompare postNoDate post1969 = Some (- 86400000) \<and>
   filtered codeUnitCompare 1705276800000 [post1969, postNoDate] [] [] (-1) [] =
     [postNoDate, post1969]"
  by (simp add: sortCompare_def timeOrZero_def filtered_def filterStages_def authorStage_def
      tagStage_def periodStage_def searchStage_def sortBy_def trim_def post_eval)

text \<open>
  C2, amended: for two posts whose \<open>dateObj\<close> is absent or a valid date, the comparator
  is negative exactly when the first post is before the second in the order of the
  specification (date key descending with absent read as 0, then author, then title,
  ascending under \<open>localeCompare\<close>) and is 0 exactly when the three keys tie. A post
  without a date sorts after every post dated after the epoch and before every post
  dated before it.
\<close>

theorem sortCompare_order:
  assumes "dateObj a \<noteq> Some NaN" and "dateObj b \<noteq> Some NaN"
  shows "\<exists>v. sortCompare localeCompare a b = Some v \<and>
           (v < 0 \<longleftrightarrow> sortsBefore localeCompare a b) \<and>
           (v = 0 \<longleftrightarrow> dateKey a = dateKey b \<and> localeCompare (author a) (author b) = 0 \<and>
                        localeCompare (title a) (title b) = 0) \<and>
           (dateObj a = None \<and> 0 < dateKey b \<longrightarrow> 0 < v) \<and>
           (dateObj a = None \<and> dateKey b < 0 \<longrightarrow> v < 0)"
proof -
  have ka: "timeOrZero (dateObj a) = Some (dateKey a)"
    using assms(1) by (auto simp: timeOrZero_def dateKey_def split: option.splits timeval.splits)
  have kb: "timeOrZero (dateObj b) = Some (dateKey b)"
    using assms(2) by (auto simp: timeOrZero_def dateKey_def split: option.splits timeval.splits)
  have a0: "dateObj a = None \<Longrightarrow> dateKey a = 0"
    by (simp add: dateKey_def)
  show ?thesis
    using a0 by (auto simp: sortCompare_def ka kb sortsBefore_def Let_def)
qed

theorem sortCompare_order_witness:
  "(\<exists>v. sortCompare codeUnitCompare postT2 postT1 = Some v \<and> v < 0) \<and>
   sortsBefore codeUnitCompare postT2 postT1 \<and>
   (\<exists>v. sortCompare codeUnitCompare postNoDate postT1 = Some v \<and> 0 < v)"
  using sortCompare_order [of postT2 postT1 codeUnitCompare]
    sortCompare_order [of postNoDate postT1 codeUnitCompare]
  by (auto simp: post_eval sortsBefore_def dateKey_def)

subsection \<open>The relative-date parser\<close>

text \<open>
  C5: \<open>parseRelativeLinkedInDate\<close> does not map the phrase \<open>now\<close> to the time \<open>T\<close>: on
  \<open>now\<close> it returns \<open>null\<close>, for every \<open>T\<close> (the phrase is split into the single token
  \<open>now\<close>, which \<open>parseInt\<close> does not read as a number).
\<close>

theorem parseRelative_now_unhandled:
  "parseRelativeLinkedInDate (js ''now'') T = None"
  by (simp add: parse_eval string_eval)

text \<open>
  C6: \<open>parseRelativeLinkedInDate\<close> strips neither \<open>edited\<close> nor \<open>ago\<close>: two inputs that
  differ only by such a word before the quantity do not parse to the same result. At
  \<open>now = 2024-01-15T00:00:00Z\<close> the phrases \<open>edited 3 days\<close> and \<open>ago 3 days\<close> give
  \<open>null\<close>, and \<open>3 days\<close> gives 2024-01-12T00:00:00Z.
\<close>

theorem parseRelative_edited_not_stripped:
  "parseRelativeLinkedInDate (js ''edited 3 days'') 1705276800000 = None \<and>
   parseRelativeLinkedInDate (js ''ago 3 days'') 1705276800000 = None \<and>
   parseRelativeLinkedInDate (js ''3 days'') 1705276800000 = Some (Time 1705017600000)"
proof -
  have "parseRelativeLinkedInDate (js ''3 days'') 1705276800000 =
        Some (setUTCDate (Time 1705276800000) (numMinus (getUTCDate (Time 1705276800000)) 3))"
    by (simp add: parse_eval string_eval TimeClip_def del: setUTCDate.simps numMinus.simps getUTCDate.simps)
  then have "parseRelativeLinkedInDate (js ''3 days'') 1705276800000 = Some (Time 1705017600000)"
    by (simp only: setUTCDate_minus) (simp add: TimeClip_def msPerDay_def)
  moreover have "parseRelativeLinkedInDate (js ''edited 3 days'') 1705276800000 = None"
    by (simp add: parse_eval string_eval)
  moreover have "parseRelativeLinkedInDate (js ''ago 3 days'') 1705276800000 = None"
    by (simp add: parse_eval string_eval)
  ultimately show ?thesis by simp
qed

text \<open>
  C8: the relative-phrase path accepts a phrase with a negative quantity and returns a
  date after \<open>now\<close>: at \<open>now = 2024-01-15T00:00:00Z\<close> (1705276800000) the phrase
  \<open>-5 days\<close> gives 2024-01-20T00:00:00Z (1705708800000).
\<close>

theorem parseRelative_negative_quantity:
  "parseRelativeLinkedInDate (js ''-5 days'') 1705276800000 = Some (Time 1705708800000)"
proof -
  have "parseRelativeLinkedInDate (js ''-5 days'') 1705276800000 =
        Some (setUTCDate (Time 1705276800000) (numMinus (getUTCDate (Time 1705276800000)) (-5)))"
    by (simp add: parse_eval string_eval TimeClip_def del: setUTCDate.simps numMinus.simps getUTCDate.simps)
  then show ?thesis
    by (simp only: setUTCDate_minus) (simp add: TimeClip_def msPerDay_def)
qed

subsection \<open>The strict ISO path\<close>

text \<open>
  C1: the string \<open>0024-01-05\<close> has the form \<open>YYYY-MM-DD\<close> and denotes the valid
  calendar date of day 5, month 1, year 24. For it the strict ISO path of
  \<open>parseDateSafe\<close> returns, whatever the generic parser is, the UTC midnight of
  1924-01-05 and not of the year 24: \<open>Date.UTC\<close> reads a year from 0 to 99 as
  \<open>1900 + year\<close>.
\<close>

theorem parseDateSafe_two_digit_year:
  "isoDateShape (js ''0024-01-05'') \<and>
   isoYear (js ''0024-01-05'') = 24 \<and> isoMonth (js ''0024-01-05'') = 1 \<and>
   isoDay (js ''0024-01-05'') = 5 \<and> validCalendarDate 24 1 5 \<and>
   parseDateSafe dateParse (js ''0024-01-05'') = Some (Time (- 1451347200000)) \<and>
   parseAnyDate dateParse now (js ''0024-01-05'') = Some (Time (- 1451347200000)) \<and>
   getUTCFullYear (Time (- 1451347200000)) = Some 1924"
proof -
  have "isoDateShape (js ''0024-01-05'')"
    by (simp add: js_def isDigit_def)
  moreover have "isoYear (js ''0024-01-05'') = 24" "isoMonth (js ''0024-01-05'') = 1"
    "isoDay (js ''0024-01-05'') = 5"
    by (simp_all add: isoYear_def isoMonth_def isoDay_def js_def digitsValue_def)
  moreover have "validCalendarDate 24 1 5"
    by (simp add: validCalendarDate_def daysInMonth_def)
  moreover have "parseDateSafe dateParse (js ''0024-01-05'') = Some (Time (- 1451347200000))"
    by (simp add: parseDateSafe_def js_def isDigit_def digitsValue_def date_eval)
  moreover have "YearFromTime (- 1451347200000) = 1924"
    by (simp add: calendar_eval date_eval)
  ultimately show ?thesis by (simp add: parseAnyDate_def)
qed

subsection \<open>The limit stage\<close>

text \<open>
  C3, as stated, fails: for \<open>max = 0\<close>, which is not the sentinel \<open>-1\<close>, the limit stage
  returns the whole list and not the empty list.
\<close>

theorem limited_zero_counterexample:
  "limited 0 [postT1, postT2] = [postT1, postT2] \<and> limited 0 [postT1, postT2] \<noteq> []"
  by (simp add: limited_def)

text \<open>
  C3, amended: when \<open>max\<close> is the sentinel \<open>-1\<close>, or is 0 (the guard \<open>!maxResults\<close>), the
  limit stage returns its input unchanged; when \<open>max\<close> is a positive integer it returns
  the first \<open>max\<close> elements, which is the whole list when the list is shorter.
\<close>

theorem limited_cases:
  "(maxResults = -1 \<or> maxResults = 0 \<longrightarrow> limited maxResults xs = xs) \<and>
   (0 < maxResults \<longrightarrow> limited maxResults xs = take (nat maxResults) xs) \<and>
   (0 < maxResults \<and> int (length xs) \<le> maxResults \<longrightarrow> limited maxResults xs = xs)"
proof -
  have pos: "0 < maxResults \<Longrightarrow> limited maxResults xs = take (nat maxResults) xs"
    by (simp add: limited_def slice0_def Let_def min_def)
  then have "0 < maxResults \<and> int (length xs) \<le> maxResults \<longrightarrow> limited maxResults xs = xs"
    by auto
  with pos show ?thesis by (simp add: limited_def)
qed

theorem limited_cases_witness:
  "limited (-1) [postT1, postT2, postNoDate] = [postT1, postT2, postNoDate] \<and>
   limited 0 [postT1, postT2, postNoDate] = [postT1, postT2, postNoDate] \<and>
   limited 2 [postT1, postT2, postNoDate] = [postT1, postT2] \<and>
   limited 200 [postT1, postT2, postNoDate] = [postT1, postT2, postNoDate]"
  using limited_cases [of "-1" "[postT1, postT2, postNoDate]"]
    limited_cases [of 0 "[postT1, postT2, postNoDate]"]
    limited_cases [of 2 "[postT1, postT2, postNoDate]"]
    limited_cases [of 200 "[postT1, postT2, postNoDate]"]
  by simp

end
